theory Spec2Isabelle
  imports Main "HOL-Library.AList" "HOL-Library.Multiset" "HOL-Library.Product_Lexorder" "HOL-Library.Word"
begin

section \<open>Shared platform vocabulary\<close>

text \<open>
  A document node (\<open>HTMLElement\<close>) is an opaque identity. Everything the three classes do
  to the outside world (the document, the console, the frame and microtask queues, native
  observation handles) is recorded as a value of \<open>effect\<close>, in program order.
\<close>

type_synonym node = nat

text \<open>An optional property of an object literal: missing, present with the value
  \<open>undefined\<close>, or present with a value.\<close>

datatype 'a field = Absent | Undef | Val 'a

text \<open>A JavaScript number is an IEEE 754 double, given by its 64 bits; no arithmetic is
  done on it here, and the platform says what \<open>String\<close> makes of it.\<close>

type_synonym number = "64 word"

datatype textval = TStr string | TNum number

text \<open>\<open>interface DOMChanges\<close> (update.ts, 240-247).\<close>

record DOMChanges =
  text_f :: "textval field"
  html_f :: "string field"
  attributes_f :: "(string \<times> string option) list field"
  styles_f :: "(string \<times> string) list field"
  classes_f :: "(string \<times> bool) list field"
  dataset_f :: "(string \<times> string) list field"

datatype docwrite =
    SetFirstChildText node string
  | SetTextContent node string
  | SetInnerHTML node string
  | RemoveAttribute node string
  | SetAttribute node string string
  | SetStyle node string string
  | ClassListAdd node string
  | ClassListRemove node string
  | SetDataset node string string

datatype detail =
    NoDetail
  | AttrDetail string "string option" "string option"
  | ContentDetail string
  | ElementDetail node
  | ChangesDetail DOMChanges

datatype effect =
    DispatchEvent node string detail
  | DocWrite docwrite
  | HandlerCall string nat
  | ConsoleError string
  | ConsoleLog node
  | RequestFrame nat
  | CancelFrame nat
  | QueueMicrotask
  | ObserverObserve nat node
  | ObserverDisconnect nat

fun is_docwrite :: "effect \<Rightarrow> bool" where
  "is_docwrite (DocWrite w) = True"
| "is_docwrite e = False"

text \<open>Effects only the Update Scheduler produces.\<close>

fun is_scheduler_effect :: "effect \<Rightarrow> bool" where
  "is_scheduler_effect (RequestFrame i) = True"
| "is_scheduler_effect (CancelFrame i) = True"
| "is_scheduler_effect (HandlerCall sel i) = True"
| "is_scheduler_effect e = False"

fun dispatch_target :: "effect \<Rightarrow> node option" where
  "dispatch_target (DispatchEvent n ev d) = Some n"
| "dispatch_target e = None"

subsection \<open>Decimal numerals (\<open>String(n)\<close>, template literals)\<close>

definition digit_char :: "nat \<Rightarrow> char" where
  "digit_char d = char_of (48 + d)"

fun string_of_nat :: "nat \<Rightarrow> string" where
  "string_of_nat n =
     (if n < 10 then [digit_char n] else string_of_nat (n div 10) @ [digit_char (n mod 10)])"

declare string_of_nat.simps [simp del]

section \<open>Update Scheduler (\<open>src/reactive-dom/update.ts\<close>)\<close>

datatype UpdatePriority = Critical | High | Normal | Low

record UpdateTask =
  element :: node
  changes :: DOMChanges
  priority :: UpdatePriority
  timestamp :: int

text \<open>
  An \<open>UpdateHandler\<close> is caller code. Its run on \<open>(element, changes)\<close> is the effects it
  performed and whether it ended by throwing.
\<close>

type_synonym UpdateHandler = "node \<Rightarrow> DOMChanges \<Rightarrow> effect list \<times> bool"

text \<open>
  The fields of \<open>class ReactiveUpdate\<close>. Both \<open>Map\<close>s are association lists in insertion
  order: \<open>Map.set\<close> is \<open>AList.update\<close> (an existing key keeps its place, a new key goes
  last), \<open>Map.delete\<close> is \<open>AList.delete\<close>. The last two fields belong to the platform: the
  next handle \<open>requestAnimationFrame\<close> will return, and the effects so far.
\<close>

record ReactiveUpdate =
  updateHandlers :: "(string \<times> UpdateHandler list) list"
  scheduledUpdates :: "(node \<times> UpdateTask) list"
  rafId :: "nat option"
  batchMode :: bool
  batchQueue :: "UpdateTask list"
  nextFrame :: nat
  out :: "effect list"

text \<open>What the scheduler reads from the platform: \<open>element.matches(selector)\<close>, the test
  \<open>element.childNodes.length === 1 && element.firstChild?.nodeType === Node.TEXT_NODE\<close>, and
  \<open>String(n)\<close> for a number \<open>n\<close>.\<close>

record platform =
  matches :: "node \<Rightarrow> string \<Rightarrow> bool"
  singleTextChild :: "node \<Rightarrow> bool"
  numberToString :: "number \<Rightarrow> string"

definition newReactiveUpdate :: ReactiveUpdate where
  "newReactiveUpdate =
     \<lparr>updateHandlers = [], scheduledUpdates = [], rafId = None, batchMode = False,
      batchQueue = [], nextFrame = 1, out = []\<rparr>"

definition emit :: "effect list \<Rightarrow> ReactiveUpdate \<Rightarrow> ReactiveUpdate" where
  "emit es s = s\<lparr>out := out s @ es\<rparr>"


definition requestUpdate :: "ReactiveUpdate \<Rightarrow> ReactiveUpdate" where
  "requestUpdate s =
     (let s1 = (case rafId s of None \<Rightarrow> s | Some i \<Rightarrow> emit [CancelFrame i] s)
      in (emit [RequestFrame (nextFrame s1)] s1)
           \<lparr>rafId := Some (nextFrame s1), nextFrame := Suc (nextFrame s1)\<rparr>)"

text \<open>\<open>scheduleUpdate\<close>; \<open>now\<close> is what \<open>Date.now()\<close> returns in the call.\<close>

definition scheduleUpdate ::
  "node \<Rightarrow> DOMChanges \<Rightarrow> UpdatePriority \<Rightarrow> int \<Rightarrow> ReactiveUpdate \<Rightarrow> ReactiveUpdate" where
  "scheduleUpdate el ch pr now s =
     (let task = \<lparr>element = el, changes = ch, priority = pr, timestamp = now\<rparr>
      in if batchMode s then s\<lparr>batchQueue := batchQueue s @ [task]\<rparr>
         else requestUpdate (s\<lparr>scheduledUpdates := AList.update el task (scheduledUpdates s)\<rparr>))"

definition startBatch :: "ReactiveUpdate \<Rightarrow> ReactiveUpdate" where
  "startBatch s = s\<lparr>batchMode := True, batchQueue := []\<rparr>"

text \<open>The object spread \<open>{ ...existing, ...later }\<close>: every own property of \<open>later\<close>, also one
  whose value is \<open>undefined\<close>, replaces that of \<open>existing\<close>.\<close>

definition spread_field :: "'a field \<Rightarrow> 'a field \<Rightarrow> 'a field" where
  "spread_field a b = (case b of Absent \<Rightarrow> a | _ \<Rightarrow> b)"

definition emptyChanges :: DOMChanges where
  "emptyChanges =
     \<lparr>text_f = Absent, html_f = Absent, attributes_f = Absent, styles_f = Absent,
      classes_f = Absent, dataset_f = Absent\<rparr>"

definition spread :: "DOMChanges \<Rightarrow> DOMChanges \<Rightarrow> DOMChanges" where
  "spread existing later =
     \<lparr>text_f = spread_field (text_f existing) (text_f later),
      html_f = spread_field (html_f existing) (html_f later),
      attributes_f = spread_field (attributes_f existing) (attributes_f later),
      styles_f = spread_field (styles_f existing) (styles_f later),
      classes_f = spread_field (classes_f existing) (classes_f later),
      dataset_f = spread_field (dataset_f existing) (dataset_f later)\<rparr>"

text \<open>The first \<open>forEach\<close> of \<open>endBatch\<close>, one step per queued task.\<close>

definition group_step ::
  "UpdateTask \<Rightarrow> (node \<times> DOMChanges) list \<Rightarrow> (node \<times> DOMChanges) list" where
  "group_step task grouped =
     (let grouped1 = (if map_of grouped (element task) = None
                      then AList.update (element task) emptyChanges grouped else grouped);
          existing = (case map_of grouped1 (element task) of Some c \<Rightarrow> c | None \<Rightarrow> emptyChanges)
      in AList.update (element task) (spread existing (changes task)) grouped1)"

definition group_tasks :: "UpdateTask list \<Rightarrow> (node \<times> DOMChanges) list" where
  "group_tasks q = fold group_step q []"

text \<open>The second \<open>forEach\<close> of \<open>endBatch\<close>. It calls \<open>Date.now()\<close> once for each group;
  \<open>now n\<close> is what the call for the group of node \<open>n\<close> returns.\<close>

definition pend_group ::
  "(node \<Rightarrow> int) \<Rightarrow> node \<times> DOMChanges \<Rightarrow> (node \<times> UpdateTask) list \<Rightarrow> (node \<times> UpdateTask) list" where
  "pend_group now g pending =
     AList.update (fst g)
       \<lparr>element = fst g, changes = snd g, priority = Normal, timestamp = now (fst g)\<rparr> pending"

definition endBatch :: "(node \<Rightarrow> int) \<Rightarrow> ReactiveUpdate \<Rightarrow> ReactiveUpdate" where
  "endBatch now s =
     (let grouped = group_tasks (batchQueue s)
      in requestUpdate
           (s\<lparr>batchMode := False,
              scheduledUpdates := fold (pend_group now) grouped (scheduledUpdates s),
              batchQueue := []\<rparr>))"

subsection \<open>Applying one update\<close>

text \<open>\<open>String(changes.text)\<close>.\<close>

definition string_of_textval :: "platform \<Rightarrow> textval \<Rightarrow> string" where
  "string_of_textval env t = (case t of TStr s \<Rightarrow> s | TNum n \<Rightarrow> numberToString env n)"

definition defaultUpdateHandler :: "platform \<Rightarrow> node \<Rightarrow> DOMChanges \<Rightarrow> effect list" where
  "defaultUpdateHandler env el ch =
     (case text_f ch of
        Val t \<Rightarrow> [DocWrite (if singleTextChild env el
                             then SetFirstChildText el (string_of_textval env t)
                             else SetTextContent el (string_of_textval env t))]
      | _ \<Rightarrow> [])
     @ (case html_f ch of Val h \<Rightarrow> [DocWrite (SetInnerHTML el h)] | _ \<Rightarrow> [])
     @ (case attributes_f ch of
          Val m \<Rightarrow> map (\<lambda>(name, v). DocWrite (case v of None \<Rightarrow> RemoveAttribute el name
                                                      | Some x \<Rightarrow> SetAttribute el name x)) m
        | _ \<Rightarrow> [])
     @ (case styles_f ch of
          Val m \<Rightarrow> map (\<lambda>(property, v). DocWrite (SetStyle el property v)) m
        | _ \<Rightarrow> [])
     @ (case classes_f ch of
          Val m \<Rightarrow> map (\<lambda>(className, shouldAdd). DocWrite (if shouldAdd then ClassListAdd el className
                                                             else ClassListRemove el className)) m
        | _ \<Rightarrow> [])
     @ (case dataset_f ch of
          Val m \<Rightarrow> map (\<lambda>(key, v). DocWrite (SetDataset el key v)) m
        | _ \<Rightarrow> [])"

text \<open>
  \<open>handlers.forEach(handler => { try { handler(element, changes); handlerApplied = true }
  catch (error) { console.error(...) } })\<close>: the effects, and whether some handler returned.
  \<open>i\<close> is the position of the next handler in the selector's list.
\<close>

fun run_handlers ::
  "string \<Rightarrow> nat \<Rightarrow> UpdateHandler list \<Rightarrow> node \<Rightarrow> DOMChanges \<Rightarrow> effect list \<times> bool" where
  "run_handlers selector i [] el ch = ([], False)"
| "run_handlers selector i (handler # hs) el ch =
     (let (effs, threw) = handler el ch;
          (rest, applied) = run_handlers selector (Suc i) hs el ch
      in (HandlerCall selector i # effs @ (if threw then [ConsoleError selector] else []) @ rest,
          \<not> threw \<or> applied))"

text \<open>The \<open>for ... of this.updateHandlers.entries()\<close> loop with its \<open>break\<close>.\<close>

fun find_handlers ::
  "platform \<Rightarrow> (string \<times> UpdateHandler list) list \<Rightarrow> node \<Rightarrow> DOMChanges \<Rightarrow> effect list \<times> bool" where
  "find_handlers env [] el ch = ([], False)"
| "find_handlers env ((selector, handlers) # rest) el ch =
     (if matches env el selector then run_handlers selector 0 handlers el ch
      else find_handlers env rest el ch)"

text \<open>The body of \<open>applyUpdate\<close>: what it does to the outside, given the registered handlers.\<close>

definition update_effects ::
  "platform \<Rightarrow> (string \<times> UpdateHandler list) list \<Rightarrow> node \<Rightarrow> DOMChanges \<Rightarrow> effect list" where
  "update_effects env registry el ch =
     (let (effs, handlerApplied) = find_handlers env registry el ch
      in effs
         @ (if \<not> handlerApplied then defaultUpdateHandler env el ch else [])
         @ [DispatchEvent el ''alphabet:updated'' (ChangesDetail ch)])"

definition applyUpdate :: "platform \<Rightarrow> node \<Rightarrow> DOMChanges \<Rightarrow> ReactiveUpdate \<Rightarrow> ReactiveUpdate" where
  "applyUpdate env el ch s = emit (update_effects env (updateHandlers s) el ch) s"

definition updateImmediate :: "platform \<Rightarrow> node \<Rightarrow> DOMChanges \<Rightarrow> ReactiveUpdate \<Rightarrow> ReactiveUpdate" where
  "updateImmediate env el ch s = applyUpdate env el ch s"

subsection \<open>The flush\<close>

definition priorityOrder :: "UpdatePriority \<Rightarrow> int" where
  "priorityOrder p = (case p of Critical \<Rightarrow> 0 | High \<Rightarrow> 1 | Normal \<Rightarrow> 2 | Low \<Rightarrow> 3)"

text \<open>The comparator handed to \<open>sort\<close>.\<close>

definition compareTasks :: "UpdateTask \<Rightarrow> UpdateTask \<Rightarrow> int" where
  "compareTasks a b =
     (let priorityDiff = priorityOrder (priority a) - priorityOrder (priority b)
      in if priorityDiff \<noteq> 0 then priorityDiff else timestamp a - timestamp b)"

text \<open>
  \<open>Array.prototype.sort(comparefn)\<close> is stable (ECMAScript 2019): an insertion sort that puts
  an element before the first later element it does not exceed.
\<close>

fun insert_by :: "('a \<Rightarrow> 'a \<Rightarrow> int) \<Rightarrow> 'a \<Rightarrow> 'a list \<Rightarrow> 'a list" where
  "insert_by cmp x [] = [x]"
| "insert_by cmp x (y # ys) = (if cmp x y \<le> 0 then x # y # ys else y # insert_by cmp x ys)"

definition array_sort :: "('a \<Rightarrow> 'a \<Rightarrow> int) \<Rightarrow> 'a list \<Rightarrow> 'a list" where
  "array_sort cmp xs = foldr (insert_by cmp) xs []"

definition apply_task :: "platform \<Rightarrow> UpdateTask \<Rightarrow> ReactiveUpdate \<Rightarrow> ReactiveUpdate" where
  "apply_task env task s =
     (let s1 = applyUpdate env (element task) (changes task) s
      in s1\<lparr>scheduledUpdates := AList.delete (element task) (scheduledUpdates s1)\<rparr>)"

definition flush_order :: "ReactiveUpdate \<Rightarrow> UpdateTask list" where
  "flush_order s = array_sort compareTasks (map snd (scheduledUpdates s))"

definition processUpdates :: "platform \<Rightarrow> ReactiveUpdate \<Rightarrow> ReactiveUpdate" where
  "processUpdates env s = fold (apply_task env) (flush_order s) s"

text \<open>The callback given to \<open>requestAnimationFrame\<close>.\<close>

definition frame_callback :: "platform \<Rightarrow> ReactiveUpdate \<Rightarrow> ReactiveUpdate" where
  "frame_callback env s = (processUpdates env s)\<lparr>rafId := None\<rparr>"

definition clearUpdates :: "ReactiveUpdate \<Rightarrow> ReactiveUpdate" where
  "clearUpdates s =
     (let s1 = s\<lparr>scheduledUpdates := [], batchQueue := []\<rparr>
      in case rafId s1 of None \<Rightarrow> s1 | Some i \<Rightarrow> (emit [CancelFrame i] s1)\<lparr>rafId := None\<rparr>)"

subsection \<open>Scheduler: reference notions the properties are stated with\<close>

text \<open>The sort key of the flush in the specification's words: priority rank (critical 0,
  high 1, normal 2, low 3), then timestamp, compared lexicographically.\<close>

fun spec_rank :: "UpdatePriority \<Rightarrow> int" where
  "spec_rank Critical = 0"
| "spec_rank High = 1"
| "spec_rank Normal = 2"
| "spec_rank Low = 3"

definition spec_key :: "UpdateTask \<Rightarrow> int \<times> int" where
  "spec_key t = (spec_rank (priority t), timestamp t)"

text \<open>Every entry of the pending map is filed under its own task's node (\<open>scheduledUpdates.set(element, {element, ...})\<close>
  is the only way in), and a \<open>Map\<close> holds a key once.\<close>

definition pending_wf :: "ReactiveUpdate \<Rightarrow> bool" where
  "pending_wf s = list_all (\<lambda>p. element (snd p) = fst p) (scheduledUpdates s)"

text \<open>The change set a batch owes a node in the specification's words: each field is that of
  the last queued change set of the node that has the field, and is missing when none has
  it.\<close>

definition latest :: "('c \<Rightarrow> 'a field) \<Rightarrow> 'c list \<Rightarrow> 'a field" where
  "latest f cs = (case filter (\<lambda>x. x \<noteq> Absent) (map f cs) of [] \<Rightarrow> Absent | x # xs \<Rightarrow> last (x # xs))"

definition merged_changes :: "node \<Rightarrow> UpdateTask list \<Rightarrow> DOMChanges" where
  "merged_changes el q =
     (let cs = map changes (filter (\<lambda>t. element t = el) q)
      in \<lparr>text_f = latest text_f cs, html_f = latest html_f cs,
          attributes_f = latest attributes_f cs, styles_f = latest styles_f cs,
          classes_f = latest classes_f cs, dataset_f = latest dataset_f cs\<rparr>)"

definition sched_inv :: "ReactiveUpdate \<Rightarrow> bool" where
  "sched_inv s = (pending_wf s \<and> distinct (map fst (scheduledUpdates s)))"

text \<open>The change sets \<open>{text: "a"}\<close>, \<open>{classes: {x: true}}\<close> and
  \<open>{text: "b", html: undefined}\<close>, the call sequence
  \<open>startBatch(); scheduleUpdate(n, {text: "a"}); scheduleUpdate(n, {classes: {x: true}}); endBatch()\<close>,
  and the same with a third call \<open>scheduleUpdate(n, {text: "b", html: undefined})\<close> before
  \<open>endBatch()\<close>.\<close>

definition text_a :: DOMChanges where
  "text_a = emptyChanges\<lparr>text_f := Val (TStr ''a'')\<rparr>"

definition classes_x :: DOMChanges where
  "classes_x = emptyChanges\<lparr>classes_f := Val [(''x'', True)]\<rparr>"

definition text_b :: DOMChanges where
  "text_b = emptyChanges\<lparr>text_f := Val (TStr ''b''), html_f := Undef\<rparr>"

definition run_batch_example ::
  "node \<Rightarrow> int \<Rightarrow> int \<Rightarrow> (node \<Rightarrow> int) \<Rightarrow> ReactiveUpdate \<Rightarrow> ReactiveUpdate" where
  "run_batch_example n t1 t2 now s =
     endBatch now (scheduleUpdate n classes_x Normal t2 (scheduleUpdate n text_a Normal t1 (startBatch s)))"

definition run_overwrite_example ::
  "node \<Rightarrow> int \<Rightarrow> int \<Rightarrow> int \<Rightarrow> (node \<Rightarrow> int) \<Rightarrow> ReactiveUpdate \<Rightarrow> ReactiveUpdate" where
  "run_overwrite_example n t1 t2 t3 now s =
     endBatch now
       (scheduleUpdate n text_b Normal t3
          (scheduleUpdate n classes_x Normal t2 (scheduleUpdate n text_a Normal t1 (startBatch s))))"

text \<open>Sample documents, schedulers and handlers: a document where no selector matches, one
  where every selector does, a handler that throws at once and one that writes and returns.\<close>

definition env0 :: platform where
  "env0 = \<lparr>matches = (\<lambda>n sel. False), singleTextChild = (\<lambda>n. False), numberToString = (\<lambda>n. [])\<rparr>"








section \<open>Document Observation Layer (\<open>src/reactive-dom/dom.ts\<close>)\<close>

text \<open>\<open>interface ReactiveOptions\<close> (dom.ts, 302-306); \<open>None\<close> is a missing property.\<close>

record ReactiveOptions =
  observeAttributes_o :: "string list option"
  observeSubtree_o :: "bool option"
  immediate_o :: "bool option"

definition noOptions :: ReactiveOptions where
  "noOptions = \<lparr>observeAttributes_o = None, observeSubtree_o = None, immediate_o = None\<rparr>"

text \<open>The \<open>MutationObserverInit\<close> handed to \<open>observer.observe\<close>.\<close>

record ObserverInit =
  attributes :: bool
  attributeFilter :: "string list option"
  characterData :: bool
  subtree :: bool
  childList :: bool

text \<open>
  The four callbacks the class hands to \<open>new MutationObserver\<close>: those built by
  \<open>observeAttributes\<close>, \<open>observeContent\<close>, \<open>observeChildren\<close> and \<open>observeNewElements\<close>.
\<close>

datatype concern = AttributeWatch | ContentWatch | ChildWatch | NewElementWatch

text \<open>
  A \<open>MutationObserver\<close> object: the variables its callback closes over (\<open>element\<close> or
  \<open>root\<close>, and \<open>options\<close>), which of the four callbacks it runs, the configuration it
  observes with, and whether it is still connected.
\<close>

record MutationObserver =
  mo_owner :: node
  mo_concern :: concern
  mo_options :: ReactiveOptions
  mo_config :: ObserverInit
  mo_connected :: bool

text \<open>
  A \<open>MutationRecord\<close> as a callback reads it. An attribute record carries
  \<open>mutation.attributeName\<close> and what \<open>element.getAttribute\<close> of that name returns while the
  callback runs; a character-data record carries \<open>mutation.target.textContent\<close>; a child-list
  record carries \<open>addedNodes\<close> and \<open>removedNodes\<close>, each node with
  \<open>node.nodeType === Node.ELEMENT_NODE\<close>.
\<close>

datatype MutationRecord =
    AttributesRecord string "string option"
  | CharacterDataRecord "string option"
  | ChildListRecord "(node \<times> bool) list" "(node \<times> bool) list"

text \<open>
  The fields of \<open>class ReactiveDOM\<close>. A \<open>Set\<close> is a list without repetition in insertion
  order, the \<open>Map\<close> of observers an association list from a node to the identities of its
  \<open>MutationObserver\<close>s. The last two fields belong to the platform: every \<open>MutationObserver\<close>
  created so far (its identity is its position), and the effects so far.
\<close>

record ReactiveDOM =
  reactiveElements :: "node list"
  observers :: "(node \<times> nat list) list"
  updateQueue :: "node list"
  isUpdating :: bool
  mos :: "MutationObserver list"
  dom_out :: "effect list"

definition newReactiveDOM :: ReactiveDOM where
  "newReactiveDOM =
     \<lparr>reactiveElements = [], observers = [], updateQueue = [], isUpdating = False,
      mos = [], dom_out = []\<rparr>"

definition set_add :: "'a \<Rightarrow> 'a list \<Rightarrow> 'a list" where
  "set_add x xs = (if x \<in> set xs then xs else xs @ [x])"

definition dom_emit :: "effect list \<Rightarrow> ReactiveDOM \<Rightarrow> ReactiveDOM" where
  "dom_emit es s = s\<lparr>dom_out := dom_out s @ es\<rparr>"

definition addObserver :: "node \<Rightarrow> nat \<Rightarrow> ReactiveDOM \<Rightarrow> ReactiveDOM" where
  "addObserver el observer s =
     (let obs = (case map_of (observers s) el of None \<Rightarrow> [] | Some l \<Rightarrow> l)
      in s\<lparr>observers := AList.update el (obs @ [observer]) (observers s)\<rparr>)"

text \<open>\<open>const observer = new MutationObserver(callback); observer.observe(element, config);
  this.addObserver(element, observer)\<close>, the common shape of the four \<open>observe...\<close> methods.\<close>

definition attach :: "node \<Rightarrow> concern \<Rightarrow> ReactiveOptions \<Rightarrow> ObserverInit \<Rightarrow> ReactiveDOM \<Rightarrow> ReactiveDOM" where
  "attach el c options config s =
     (let observer = length (mos s);
          s1 = s\<lparr>mos := mos s @ [\<lparr>mo_owner = el, mo_concern = c, mo_options = options,
                                   mo_config = config, mo_connected = True\<rparr>]\<rparr>
      in addObserver el observer (dom_emit [ObserverObserve observer el] s1))"

definition observeAttributes :: "node \<Rightarrow> ReactiveOptions \<Rightarrow> ReactiveDOM \<Rightarrow> ReactiveDOM" where
  "observeAttributes el options s =
     attach el AttributeWatch options
       \<lparr>attributes = True, attributeFilter = observeAttributes_o options,
        characterData = False, subtree = False, childList = False\<rparr> s"

definition observeContent :: "node \<Rightarrow> ReactiveOptions \<Rightarrow> ReactiveDOM \<Rightarrow> ReactiveDOM" where
  "observeContent el options s =
     attach el ContentWatch options
       \<lparr>attributes = False, attributeFilter = None,
        characterData = True, subtree = True, childList = True\<rparr> s"

definition observeChildren :: "node \<Rightarrow> ReactiveOptions \<Rightarrow> ReactiveDOM \<Rightarrow> ReactiveDOM" where
  "observeChildren el options s =
     attach el ChildWatch options
       \<lparr>attributes = False, attributeFilter = None, characterData = False,
        subtree = (case observeSubtree_o options of None \<Rightarrow> False | Some b \<Rightarrow> b),
        childList = True\<rparr> s"

definition observeNewElements :: "node \<Rightarrow> ReactiveOptions \<Rightarrow> ReactiveDOM \<Rightarrow> ReactiveDOM" where
  "observeNewElements root options s =
     attach root NewElementWatch options
       \<lparr>attributes = False, attributeFilter = None, characterData = False,
        subtree = True, childList = True\<rparr> s"

definition makeReactive :: "node \<Rightarrow> ReactiveOptions \<Rightarrow> ReactiveDOM \<Rightarrow> ReactiveDOM" where
  "makeReactive el options s =
     (if el \<in> set (reactiveElements s) then s
      else
        let s1 = s\<lparr>reactiveElements := set_add el (reactiveElements s)\<rparr>;
            s2 = observeAttributes el options s1;
            s3 = observeContent el options s2;
            s4 = observeChildren el options s3
        in dom_emit [ConsoleLog el] s4)"

text \<open>\<open>qsa root\<close> is \<open>root.querySelectorAll('*')\<close>, read from the document.\<close>

definition makeReactiveSubtree ::
  "(node \<Rightarrow> node list) \<Rightarrow> node \<Rightarrow> ReactiveOptions \<Rightarrow> ReactiveDOM \<Rightarrow> ReactiveDOM" where
  "makeReactiveSubtree qsa root options s =
     (let s1 = makeReactive root options s;
          s2 = fold (\<lambda>e. makeReactive e options) (qsa root) s1
      in observeNewElements root options s2)"

definition queueUpdate :: "node \<Rightarrow> ReactiveDOM \<Rightarrow> ReactiveDOM" where
  "queueUpdate el s =
     (let s1 = s\<lparr>updateQueue := set_add el (updateQueue s)\<rparr>
      in if \<not> isUpdating s1 then dom_emit [QueueMicrotask] (s1\<lparr>isUpdating := True\<rparr>) else s1)"

definition performUpdate :: "node \<Rightarrow> ReactiveDOM \<Rightarrow> ReactiveDOM" where
  "performUpdate el s = dom_emit [DispatchEvent el ''alphabet:update'' NoDetail] s"

definition processUpdateQueue :: "ReactiveDOM \<Rightarrow> ReactiveDOM" where
  "processUpdateQueue s =
     (let s1 = fold performUpdate (updateQueue s) s
      in s1\<lparr>updateQueue := [], isUpdating := False\<rparr>)"

text \<open>\<open>observer.disconnect()\<close>.\<close>

definition disconnect :: "nat \<Rightarrow> ReactiveDOM \<Rightarrow> ReactiveDOM" where
  "disconnect observer s =
     dom_emit [ObserverDisconnect observer]
       (s\<lparr>mos := (if observer < length (mos s)
                   then (mos s)[observer := (mos s ! observer)\<lparr>mo_connected := False\<rparr>]
                   else mos s)\<rparr>)"

definition cleanupElement :: "node \<Rightarrow> ReactiveDOM \<Rightarrow> ReactiveDOM" where
  "cleanupElement el s =
     (let s1 = (case map_of (observers s) el of
                  None \<Rightarrow> s
                | Some obs \<Rightarrow>
                    (let s0 = fold disconnect obs s
                     in s0\<lparr>observers := AList.delete el (observers s0)\<rparr>))
      in s1\<lparr>reactiveElements := removeAll el (reactiveElements s1),
            updateQueue := removeAll el (updateQueue s1)\<rparr>)"

text \<open>The attribute is read twice with nothing in between (once for the call, once for
  \<open>oldValue\<close> in the event), so both readings are the value the record carries.\<close>

definition handleAttributeChange :: "node \<Rightarrow> string \<Rightarrow> string option \<Rightarrow> ReactiveDOM \<Rightarrow> ReactiveDOM" where
  "handleAttributeChange el attributeName newValue s =
     dom_emit [DispatchEvent el ''alphabet:attribute-change''
                 (AttrDetail attributeName newValue newValue)]
       (queueUpdate el s)"

definition handleContentChange :: "node \<Rightarrow> string \<Rightarrow> ReactiveDOM \<Rightarrow> ReactiveDOM" where
  "handleContentChange el newContent s =
     dom_emit [DispatchEvent el ''alphabet:content-change'' (ContentDetail newContent)]
       (queueUpdate el s)"

definition handleElementAdded :: "node \<Rightarrow> node \<Rightarrow> ReactiveDOM \<Rightarrow> ReactiveDOM" where
  "handleElementAdded parent el s =
     dom_emit [DispatchEvent parent ''alphabet:child-added'' (ElementDetail el)]
       (queueUpdate parent (makeReactive el noOptions s))"

definition handleElementRemoved :: "node \<Rightarrow> node \<Rightarrow> ReactiveDOM \<Rightarrow> ReactiveDOM" where
  "handleElementRemoved parent el s =
     dom_emit [DispatchEvent parent ''alphabet:child-removed'' (ElementDetail el)]
       (queueUpdate parent (cleanupElement el s))"

subsection \<open>The four observer callbacks\<close>

fun attributes_callback :: "node \<Rightarrow> MutationRecord \<Rightarrow> ReactiveDOM \<Rightarrow> ReactiveDOM" where
  "attributes_callback el (AttributesRecord attributeName v) s = handleAttributeChange el attributeName v s"
| "attributes_callback el m s = s"

fun content_callback :: "node \<Rightarrow> MutationRecord \<Rightarrow> ReactiveDOM \<Rightarrow> ReactiveDOM" where
  "content_callback el (CharacterDataRecord textContent) s =
     handleContentChange el (case textContent of None \<Rightarrow> [] | Some t \<Rightarrow> t) s"
| "content_callback el m s = s"

definition added_node :: "node \<Rightarrow> node \<times> bool \<Rightarrow> ReactiveDOM \<Rightarrow> ReactiveDOM" where
  "added_node el nd s = (if snd nd then handleElementAdded el (fst nd) s else s)"

definition removed_node :: "node \<Rightarrow> node \<times> bool \<Rightarrow> ReactiveDOM \<Rightarrow> ReactiveDOM" where
  "removed_node el nd s = (if snd nd then handleElementRemoved el (fst nd) s else s)"

fun children_callback :: "node \<Rightarrow> MutationRecord \<Rightarrow> ReactiveDOM \<Rightarrow> ReactiveDOM" where
  "children_callback el (ChildListRecord addedNodes removedNodes) s =
     fold (removed_node el) removedNodes (fold (added_node el) addedNodes s)"
| "children_callback el m s = s"

definition new_node ::
  "(node \<Rightarrow> node list) \<Rightarrow> ReactiveOptions \<Rightarrow> node \<times> bool \<Rightarrow> ReactiveDOM \<Rightarrow> ReactiveDOM" where
  "new_node qsa options nd s = (if snd nd then makeReactiveSubtree qsa (fst nd) options s else s)"

fun newElements_callback ::
  "(node \<Rightarrow> node list) \<Rightarrow> ReactiveOptions \<Rightarrow> MutationRecord \<Rightarrow> ReactiveDOM \<Rightarrow> ReactiveDOM" where
  "newElements_callback qsa options (ChildListRecord addedNodes removedNodes) s =
     fold (new_node qsa options) addedNodes s"
| "newElements_callback qsa options m s = s"

text \<open>The callback of one \<open>MutationObserver\<close> on a batch of records (\<open>mutations.forEach\<close>).\<close>

definition callback ::
  "(node \<Rightarrow> node list) \<Rightarrow> MutationObserver \<Rightarrow> MutationRecord list \<Rightarrow> ReactiveDOM \<Rightarrow> ReactiveDOM" where
  "callback qsa mo mutations s =
     (case mo_concern mo of
        AttributeWatch \<Rightarrow> fold (attributes_callback (mo_owner mo)) mutations s
      | ContentWatch \<Rightarrow> fold (content_callback (mo_owner mo)) mutations s
      | ChildWatch \<Rightarrow> fold (children_callback (mo_owner mo)) mutations s
      | NewElementWatch \<Rightarrow> fold (newElements_callback qsa (mo_options mo)) mutations s)"

text \<open>The platform calls back a \<open>MutationObserver\<close> only while it is connected.\<close>

definition deliver ::
  "(node \<Rightarrow> node list) \<Rightarrow> nat \<Rightarrow> MutationRecord list \<Rightarrow> ReactiveDOM \<Rightarrow> ReactiveDOM" where
  "deliver qsa observer mutations s =
     (if observer < length (mos s) \<and> mo_connected (mos s ! observer)
      then callback qsa (mos s ! observer) mutations s else s)"

text \<open>The microtask queued by \<open>queueUpdate\<close>; one is outstanding exactly while
  \<open>isUpdating\<close> holds.\<close>

definition microtask :: "ReactiveDOM \<Rightarrow> ReactiveDOM" where
  "microtask s = (if isUpdating s then processUpdateQueue s else s)"

definition destroy :: "ReactiveDOM \<Rightarrow> ReactiveDOM" where
  "destroy s =
     (let s1 = fold (\<lambda>entry s. fold disconnect (snd entry) s) (observers s) s
      in s1\<lparr>observers := [], reactiveElements := [], updateQueue := []\<rparr>)"

text \<open>Everything that can happen to a \<open>ReactiveDOM\<close>: its public methods, a batch of records
  delivered to one of its observers, and the microtask.\<close>

datatype dom_step =
    MakeReactive node ReactiveOptions
  | MakeReactiveSubtree node ReactiveOptions
  | Deliver nat "MutationRecord list"
  | Microtask
  | Destroy

fun dom_exec :: "(node \<Rightarrow> node list) \<Rightarrow> dom_step \<Rightarrow> ReactiveDOM \<Rightarrow> ReactiveDOM" where
  "dom_exec qsa (MakeReactive el options) s = makeReactive el options s"
| "dom_exec qsa (MakeReactiveSubtree root options) s = makeReactiveSubtree qsa root options s"
| "dom_exec qsa (Deliver observer mutations) s = deliver qsa observer mutations s"
| "dom_exec qsa Microtask s = microtask s"
| "dom_exec qsa Destroy s = destroy s"

definition dom_run :: "(node \<Rightarrow> node list) \<Rightarrow> dom_step list \<Rightarrow> ReactiveDOM \<Rightarrow> ReactiveDOM" where
  "dom_run qsa steps s = fold (dom_exec qsa) steps s"

subsection \<open>Observation layer: reference notions the properties are stated with\<close>

text \<open>The observation handles the layer holds for a node, and those of one concern.\<close>

definition handles_of :: "ReactiveDOM \<Rightarrow> node \<Rightarrow> nat list" where
  "handles_of s el = (case map_of (observers s) el of None \<Rightarrow> [] | Some l \<Rightarrow> l)"

definition handles_for :: "ReactiveDOM \<Rightarrow> node \<Rightarrow> concern \<Rightarrow> nat list" where
  "handles_for s el c = filter (\<lambda>i. mo_concern (mos s ! i) = c) (handles_of s el)"

text \<open>
  The bookkeeping agrees with the platform: a handle filed under a node exists, was created
  for that node and is connected; a connected handle is filed under the node it was created
  for.
\<close>

definition handles_wf :: "ReactiveDOM \<Rightarrow> bool" where
  "handles_wf s =
     ((\<forall>el. \<forall>i \<in> set (handles_of s el).
          i < length (mos s) \<and> mo_owner (mos s ! i) = el \<and> mo_connected (mos s ! i))
      \<and> (\<forall>i < length (mos s).
            mo_connected (mos s ! i) \<longrightarrow> i \<in> set (handles_of s (mo_owner (mos s ! i)))))"

text \<open>A reactive node holds exactly one handle for each of the three concerns of
  \<open>makeReactive\<close>; a node that is not reactive holds no handle.\<close>

definition one_per_concern :: "ReactiveDOM \<Rightarrow> bool" where
  "one_per_concern s =
     (\<forall>el. if el \<in> set (reactiveElements s)
           then length (handles_for s el AttributeWatch) = 1
                \<and> length (handles_for s el ContentWatch) = 1
                \<and> length (handles_for s el ChildWatch) = 1
           else handles_of s el = [])"

text \<open>Nothing of the layer refers to the node any more: it is not tracked, holds no handle,
  is not queued, and no connected handle was created for it.\<close>

definition forgotten :: "node \<Rightarrow> ReactiveDOM \<Rightarrow> bool" where
  "forgotten n s =
     (n \<notin> set (reactiveElements s) \<and> handles_of s n = [] \<and> n \<notin> set (updateQueue s)
      \<and> (\<forall>i < length (mos s). mo_connected (mos s ! i) \<longrightarrow> mo_owner (mos s ! i) \<noteq> n))"

text \<open>A step that can make the node reactive again: \<open>makeReactive\<close> on it, \<open>makeReactiveSubtree\<close>
  on it or on a node it lies under, a child-list record that reports it, or a node it lies
  under, as added.\<close>

definition reports_added :: "(node \<Rightarrow> node list) \<Rightarrow> node \<Rightarrow> MutationRecord \<Rightarrow> bool" where
  "reports_added qsa n m =
     (case m of
        ChildListRecord addedNodes removedNodes \<Rightarrow>
          list_ex (\<lambda>nd. fst nd = n \<or> n \<in> set (qsa (fst nd))) addedNodes
      | _ \<Rightarrow> False)"

fun reaches :: "(node \<Rightarrow> node list) \<Rightarrow> node \<Rightarrow> dom_step \<Rightarrow> bool" where
  "reaches qsa n (MakeReactive el options) = (el = n)"
| "reaches qsa n (MakeReactiveSubtree root options) = (root = n \<or> n \<in> set (qsa root))"
| "reaches qsa n (Deliver observer mutations) = list_ex (reports_added qsa n) mutations"
| "reaches qsa n Microtask = False"
| "reaches qsa n Destroy = False"

text \<open>The effects a run adds to the trace.\<close>

definition new_effects :: "ReactiveDOM \<Rightarrow> ReactiveDOM \<Rightarrow> effect list" where
  "new_effects s s' = drop (length (dom_out s)) (dom_out s')"

text \<open>What the observation layer may do to the outside: dispatch one of its five events,
  queue its microtask, create or disconnect an observation handle, log.\<close>

fun layer_effect :: "effect \<Rightarrow> bool" where
  "layer_effect (DispatchEvent n ev d) =
     (ev \<in> {''alphabet:attribute-change'', ''alphabet:content-change'', ''alphabet:child-added'',
            ''alphabet:child-removed'', ''alphabet:update''})"
| "layer_effect QueueMicrotask = True"
| "layer_effect (ObserverObserve i n) = True"
| "layer_effect (ObserverDisconnect i) = True"
| "layer_effect (ConsoleLog n) = True"
| "layer_effect e = False"

text \<open>The second state's trace is the first one's followed by effects that all satisfy \<open>P\<close>.\<close>

definition grows_by :: "(effect \<Rightarrow> bool) \<Rightarrow> ReactiveDOM \<Rightarrow> ReactiveDOM \<Rightarrow> bool" where
  "grows_by P s s' = (\<exists>es. dom_out s' = dom_out s @ es \<and> list_all P es)"

definition not_on :: "node \<Rightarrow> effect \<Rightarrow> bool" where
  "not_on n e = (dispatch_target e \<noteq> Some n)"

definition dom_inv :: "ReactiveDOM \<Rightarrow> bool" where
  "dom_inv s = (handles_wf s \<and> one_per_concern s)"

text \<open>The two reactions the specification names: the node joins the intent queue (and the
  microtask is requested unless one is outstanding), and one event is dispatched on it.\<close>

definition enqueue_and_dispatch :: "node \<Rightarrow> string \<Rightarrow> detail \<Rightarrow> ReactiveDOM \<Rightarrow> ReactiveDOM" where
  "enqueue_and_dispatch el ev d s =
     s\<lparr>updateQueue := set_add el (updateQueue s), isUpdating := True,
       dom_out := dom_out s @ (if isUpdating s then [] else [QueueMicrotask])
                  @ [DispatchEvent el ev d]\<rparr>"

text \<open>The connected handles the platform holds for a node and a concern.\<close>

definition live_handles :: "ReactiveDOM \<Rightarrow> node \<Rightarrow> concern \<Rightarrow> nat set" where
  "live_handles s el c =
     {i. i < length (mos s) \<and> mo_connected (mos s ! i) \<and> mo_owner (mos s ! i) = el
         \<and> mo_concern (mos s ! i) = c}"

text \<open>Sample documents and layers: a document without descendants; a layer with nodes 1 and
  2 reactive; the same after \<open>cleanupElement(2)\<close>; a layer where node 1 was reached by
  \<open>makeReactive\<close>, \<open>makeReactiveSubtree\<close> and \<open>makeReactive\<close> again.\<close>

definition qsa0 :: "node \<Rightarrow> node list" where
  "qsa0 n = []"

definition two_reactive :: ReactiveDOM where
  "two_reactive = dom_run qsa0 [MakeReactive 1 noOptions, MakeReactive 2 noOptions] newReactiveDOM"

definition cleaned :: ReactiveDOM where
  "cleaned = cleanupElement 2 two_reactive"

definition thrice_reached :: ReactiveDOM where
  "thrice_reached =
     dom_run qsa0 [MakeReactive 1 noOptions, MakeReactiveSubtree 1 noOptions,
                   MakeReactive 1 noOptions] newReactiveDOM"

definition one_reactive :: ReactiveDOM where
  "one_reactive = makeReactive 1 noOptions newReactiveDOM"

section \<open>Change Registry (\<open>class ReactiveProxy\<close>, part 005)\<close>

subsection \<open>JavaScript values and objects\<close>

text \<open>
  The data a wrapper holds: primitives, references to objects of a store, and the proxies
  the wrapper makes. Numbers are integers, strings are ASCII. An object is a plain object
  or an array with the prototype the language gives it; both keep their own properties in
  a list, an array also its \<open>length\<close>. An index that is missing from an array's properties
  is a hole. A proxy \<open>Proxy t path\<close> is what \<open>createProxy(t, path)\<close> returns for an object
  \<open>t\<close>, which is an object of the store or again a proxy; two proxies made from the same
  target and path behave alike. Functions are not data.
\<close>

datatype jsval = Undefined | Null | JBool bool | JNum int | JStr string | Ref nat | Proxy jsval string

datatype jsobj = Obj "(string \<times> jsval) list" | Arr nat "(string \<times> jsval) list"

text \<open>
  How an operation can end other than by returning: with one of the two exceptions, or
  \<open>Unmodelled\<close>, by reaching something this theory does not describe: a property of a
  built-in prototype, a conversion of a string or an object to a number, the clone of a
  proxy. What the code does from there is not said.
\<close>

datatype js_error = TypeError | RangeError | Unmodelled

type_synonym heap = "jsobj list"

text \<open>
  The names of the properties of \<open>Object.prototype\<close>, \<open>Array.prototype\<close>,
  \<open>String.prototype\<close>, \<open>Number.prototype\<close> and \<open>Boolean.prototype\<close> (ECMAScript 2024 with
  Annex B), without \<open>length\<close>, which arrays and strings have as a property of their own. An
  object has a property of such a name when it is its own; otherwise the lookup is taken to
  reach a prototype, whatever the kind of the object.
\<close>

definition builtin_names :: "string list" where
  "builtin_names =
     [''constructor'', ''hasOwnProperty'', ''isPrototypeOf'', ''propertyIsEnumerable'',
      ''toLocaleString'', ''toString'', ''valueOf'', ''__proto__'', ''__defineGetter__'',
      ''__defineSetter__'', ''__lookupGetter__'', ''__lookupSetter__'',
      ''at'', ''concat'', ''copyWithin'', ''entries'', ''every'', ''fill'', ''filter'', ''find'',
      ''findIndex'', ''findLast'', ''findLastIndex'', ''flat'', ''flatMap'', ''forEach'',
      ''includes'', ''indexOf'', ''join'', ''keys'', ''lastIndexOf'', ''map'', ''pop'', ''push'',
      ''reduce'', ''reduceRight'', ''reverse'', ''shift'', ''slice'', ''some'', ''sort'',
      ''splice'', ''toReversed'', ''toSorted'', ''toSpliced'', ''unshift'', ''values'', ''with'',
      ''charAt'', ''charCodeAt'', ''codePointAt'', ''endsWith'', ''isWellFormed'',
      ''localeCompare'', ''match'', ''matchAll'', ''normalize'', ''padEnd'', ''padStart'',
      ''repeat'', ''replace'', ''replaceAll'', ''search'', ''split'', ''startsWith'',
      ''substring'', ''toLocaleLowerCase'', ''toLocaleUpperCase'', ''toLowerCase'',
      ''toUpperCase'', ''toWellFormed'', ''trim'', ''trimEnd'', ''trimStart'', ''substr'',
      ''anchor'', ''big'', ''blink'', ''bold'', ''fixed'', ''fontcolor'', ''fontsize'',
      ''italics'', ''link'', ''small'', ''strike'', ''sub'', ''sup'', ''trimLeft'', ''trimRight'',
      ''toExponential'', ''toFixed'', ''toPrecision'']"

definition builtin :: "string \<Rightarrow> bool" where
  "builtin k = (k \<in> set builtin_names)"

definition is_digit :: "char \<Rightarrow> bool" where
  "is_digit c = (48 \<le> (of_char c :: nat) \<and> (of_char c :: nat) \<le> 57)"

text \<open>\<open>\w\<close> of a regular expression: a letter, a digit or the underscore.\<close>

definition is_word :: "char \<Rightarrow> bool" where
  "is_word c =
     (let n = (of_char c :: nat)
      in (48 \<le> n \<and> n \<le> 57) \<or> (65 \<le> n \<and> n \<le> 90) \<or> (97 \<le> n \<and> n \<le> 122) \<or> n = 95)"

definition nat_of_digits :: "string \<Rightarrow> nat" where
  "nat_of_digits ds = foldl (\<lambda>acc c. 10 * acc + ((of_char c :: nat) - 48)) 0 ds"

text \<open>A property key that is an array index: the decimal numeral of a number below
  \<open>2\<^sup>3\<^sup>2 - 1\<close>, written the way \<open>String\<close> writes it.\<close>

definition array_index :: "string \<Rightarrow> nat option" where
  "array_index k =
     (if k \<noteq> [] \<and> list_all is_digit k \<and> string_of_nat (nat_of_digits k) = k
         \<and> int (nat_of_digits k) < 4294967295
      then Some (nat_of_digits k) else None)"

definition truthy :: "jsval \<Rightarrow> bool" where
  "truthy v =
     (case v of Undefined \<Rightarrow> False | Null \<Rightarrow> False | JBool b \<Rightarrow> b | JNum n \<Rightarrow> n \<noteq> 0
      | JStr s \<Rightarrow> s \<noteq> [] | Ref a \<Rightarrow> True | Proxy t path \<Rightarrow> True)"

text \<open>\<open>typeof v === 'object' && v !== null\<close>, and \<open>typeof v === 'object'\<close>.\<close>

definition is_object :: "jsval \<Rightarrow> bool" where
  "is_object v = (case v of Ref a \<Rightarrow> True | Proxy t path \<Rightarrow> True | _ \<Rightarrow> False)"

definition typeof_object :: "jsval \<Rightarrow> bool" where
  "typeof_object v = (is_object v \<or> v = Null)"

definition is_array :: "jsobj \<Rightarrow> bool" where
  "is_array ob = (case ob of Arr n ps \<Rightarrow> True | Obj ps \<Rightarrow> False)"

definition props_of :: "jsobj \<Rightarrow> (string \<times> jsval) list" where
  "props_of ob = (case ob of Arr n ps \<Rightarrow> ps | Obj ps \<Rightarrow> ps)"

text \<open>The own property of an object under a key, if it has one.\<close>

definition own :: "jsobj \<Rightarrow> string \<Rightarrow> jsval option" where
  "own ob k =
     (case ob of
        Obj ps \<Rightarrow> map_of ps k
      | Arr n ps \<Rightarrow> if k = ''length'' then Some (JNum (int n)) else map_of ps k)"

text \<open>\<open>obj[prop]\<close> on an object of the store: its own property, or \<open>undefined\<close> when no
  prototype has a property of that name.\<close>

definition obj_get :: "jsobj \<Rightarrow> string \<Rightarrow> js_error + jsval" where
  "obj_get ob k =
     (case own ob k of
        Some v \<Rightarrow> Inr v
      | None \<Rightarrow> if builtin k then Inl Unmodelled else Inr Undefined)"

text \<open>
  The number an array takes as its new \<open>length\<close>. The assignment throws a \<open>RangeError\<close>
  when the value, converted to a number, is not an integer from 0 to \<open>2\<^sup>3\<^sup>2 - 1\<close>. Of the
  strings only decimal numerals and the empty string are converted here, and no object is.
\<close>

definition to_length :: "jsval \<Rightarrow> js_error + nat" where
  "to_length v =
     (case v of
        JNum m \<Rightarrow> if 0 \<le> m \<and> m < 4294967296 then Inr (nat m) else Inl RangeError
      | JBool b \<Rightarrow> Inr (if b then 1 else 0)
      | Null \<Rightarrow> Inr 0
      | Undefined \<Rightarrow> Inl RangeError
      | JStr s \<Rightarrow> if s = [] then Inr 0
                  else if list_all is_digit s
                  then (if int (nat_of_digits s) < 4294967296 then Inr (nat_of_digits s)
                        else Inl RangeError)
                  else Inl Unmodelled
      | _ \<Rightarrow> Inl Unmodelled)"

definition below_length :: "nat \<Rightarrow> string \<times> jsval \<Rightarrow> bool" where
  "below_length n p = (case array_index (fst p) of None \<Rightarrow> True | Some i \<Rightarrow> i < n)"

text \<open>
  \<open>obj[prop] = value\<close> on an object of the store (an ordinary object or array, not a
  proxy): writing an index at or beyond an array's length extends the array, writing
  \<open>length\<close> drops the elements at or beyond it. Writing \<open>__proto__\<close> where that is not an own
  property calls the setter of \<open>Object.prototype\<close>.
\<close>

definition obj_put :: "jsobj \<Rightarrow> string \<Rightarrow> jsval \<Rightarrow> js_error + jsobj" where
  "obj_put ob k v =
     (if k = ''__proto__'' \<and> own ob k = None then Inl Unmodelled
      else case ob of
        Obj ps \<Rightarrow> Inr (Obj (AList.update k v ps))
      | Arr n ps \<Rightarrow>
          if k = ''length''
          then (case to_length v of
                  Inl e \<Rightarrow> Inl e
                | Inr m \<Rightarrow> Inr (Arr m (filter (below_length m) ps)))
          else (case array_index k of
                  Some i \<Rightarrow> Inr (Arr (max n (Suc i)) (AList.update k v ps))
                | None \<Rightarrow> Inr (Arr n (AList.update k v ps))))"

text \<open>\<open>delete obj[prop]\<close> in strict code: an array's \<open>length\<close> cannot be deleted, anything
  else can (also a property that is not there).\<close>

definition obj_delete :: "jsobj \<Rightarrow> string \<Rightarrow> js_error + jsobj" where
  "obj_delete ob k =
     (case ob of
        Obj ps \<Rightarrow> Inr (Obj (AList.delete k ps))
      | Arr n ps \<Rightarrow> if k = ''length'' then Inl TypeError else Inr (Arr n (AList.delete k ps)))"

definition heap_get :: "heap \<Rightarrow> nat \<Rightarrow> jsobj" where
  "heap_get h a = (if a < length h then h ! a else Obj [])"

subsection \<open>The wrapper\<close>

text \<open>One entry per callback invocation, \<open>callback(value, oldValue)\<close> for a path, and one
  per \<open>console.error\<close> of \<open>notify\<close>.\<close>

datatype rp_event = Notified string nat jsval jsval | ObserverError string

text \<open>
  The fields of \<open>class ReactiveProxy\<close>. A callback is known by its identity; the \<open>Set\<close> of
  callbacks of a path is a list without repetition. The last three fields belong to the
  environment: the object store, the callbacks that throw when called, and the invocations
  so far. A callback does nothing else (it does not call back into the wrapper).
\<close>

record ReactiveProxy =
  observers_rp :: "(string \<times> nat list) list"
  target :: jsval
  proxy :: jsval
  store :: heap
  throwing :: "nat list"
  notified :: "rp_event list"

definition store_put :: "heap \<Rightarrow> nat \<Rightarrow> jsobj \<Rightarrow> heap" where
  "store_put h a ob = (if a < length h then h[a := ob] else h)"

text \<open>
  \<open>deepClone\<close> (199-216). \<open>clone_entries\<close> is the loop over the properties of a plain
  object (\<open>for (const key in obj) if (obj.hasOwnProperty(key)) cloned[key] = ...\<close>) or over
  the elements of an array (\<open>obj.map(item => this.deepClone(item))\<close>, which skips holes and
  extra properties); \<open>c\<close> is the clone being filled. The properties are taken in the order
  of the list; JavaScript takes integer keys first, which changes the addresses the clones
  get and nothing else. The first argument is the number of nested calls the stack of the
  engine has room for: a deeper recursion ends with a \<open>RangeError\<close>. An object with an own
  property \<open>hasOwnProperty\<close>, or an array with an own property \<open>map\<close>, has a value there
  that is not a function, and calling it throws. \<open>map\<close> reads the \<open>constructor\<close> of the
  array, and the assignment \<open>cloned[key] = ...\<close> calls a setter for the key \<open>__proto__\<close>.
\<close>

definition index_entries :: "nat \<Rightarrow> (string \<times> jsval) list \<Rightarrow> (string \<times> jsval) list" where
  "index_entries n ps =
     List.map_filter (\<lambda>i. map_option (Pair (string_of_nat i)) (map_of ps (string_of_nat i))) [0 ..< n]"

definition put_entry :: "heap \<Rightarrow> nat \<Rightarrow> string \<Rightarrow> jsval \<Rightarrow> js_error + heap" where
  "put_entry h c k v =
     (case obj_put (heap_get h c) k v of Inl e \<Rightarrow> Inl e | Inr ob \<Rightarrow> Inr (store_put h c ob))"

fun deepClone :: "nat \<Rightarrow> jsval \<Rightarrow> heap \<Rightarrow> js_error + jsval \<times> heap"
  and clone_entries :: "nat \<Rightarrow> (string \<times> jsval) list \<Rightarrow> nat \<Rightarrow> heap \<Rightarrow> js_error + heap" where
  "deepClone fuel (Ref a) h =
     (case fuel of
        0 \<Rightarrow> Inl RangeError
      | Suc m \<Rightarrow>
          (case heap_get h a of
             Arr n ps \<Rightarrow>
               if map_of ps ''map'' \<noteq> None then Inl TypeError
               else if map_of ps ''constructor'' \<noteq> None then Inl Unmodelled
               else map_sum id (Pair (Ref (length h)))
                      (clone_entries m (index_entries n ps) (length h) (h @ [Arr n []]))
           | Obj ps \<Rightarrow>
               if map_of ps ''hasOwnProperty'' \<noteq> None then Inl TypeError
               else map_sum id (Pair (Ref (length h)))
                      (clone_entries m ps (length h) (h @ [Obj []]))))"
| "deepClone fuel (Proxy t path) h = Inl Unmodelled"
| "deepClone fuel Undefined h = Inr (Undefined, h)"
| "deepClone fuel Null h = Inr (Null, h)"
| "deepClone fuel (JBool b) h = Inr (JBool b, h)"
| "deepClone fuel (JNum n) h = Inr (JNum n, h)"
| "deepClone fuel (JStr s) h = Inr (JStr s, h)"
| "clone_entries fuel [] c h = Inr h"
| "clone_entries fuel (e # es) c h =
     (case deepClone fuel (snd e) h of
        Inl x \<Rightarrow> Inl x
      | Inr (v, h') \<Rightarrow>
          (case put_entry h' c (fst e) v of
             Inl x \<Rightarrow> Inl x
           | Inr h'' \<Rightarrow> clone_entries fuel es c h''))"

text \<open>\<open>createProxy(target, path)\<close>: a primitive is returned as it is.\<close>

definition createProxy :: "jsval \<Rightarrow> string \<Rightarrow> jsval" where
  "createProxy tgt path = (if is_object tgt then Proxy tgt path else tgt)"

text \<open>The constructor, given the room of the stack, the argument, the callbacks that throw
  and the store. Its parameter defaults to a new \<open>{}\<close>.\<close>

definition newReactiveProxy :: "nat \<Rightarrow> jsval \<Rightarrow> nat list \<Rightarrow> heap \<Rightarrow> js_error + ReactiveProxy" where
  "newReactiveProxy stack tgt thr h =
     (let (tgt1, h1) = (if tgt = Undefined then (Ref (length h), h @ [Obj []]) else (tgt, h))
      in case deepClone stack tgt1 h1 of
           Inl e \<Rightarrow> Inl e
         | Inr (t, h') \<Rightarrow>
             Inr \<lparr>observers_rp = [], target = t, proxy = createProxy t [], store = h',
                  throwing = thr, notified = []\<rparr>)"

definition getProxy :: "ReactiveProxy \<Rightarrow> jsval" where
  "getProxy s = proxy s"


definition subscribers :: "ReactiveProxy \<Rightarrow> string \<Rightarrow> nat list" where
  "subscribers s path = (case map_of (observers_rp s) path of None \<Rightarrow> [] | Some l \<Rightarrow> l)"

definition observe :: "string \<Rightarrow> nat \<Rightarrow> ReactiveProxy \<Rightarrow> ReactiveProxy" where
  "observe path cb s =
     s\<lparr>observers_rp := AList.update path (set_add cb (subscribers s path)) (observers_rp s)\<rparr>"

text \<open>The function \<open>observe\<close> returns.\<close>

definition unsubscribe :: "string \<Rightarrow> nat \<Rightarrow> ReactiveProxy \<Rightarrow> ReactiveProxy" where
  "unsubscribe path cb s =
     (case map_of (observers_rp s) path of
        None \<Rightarrow> s
      | Some l \<Rightarrow> s\<lparr>observers_rp := AList.update path (removeAll cb l) (observers_rp s)\<rparr>)"

definition call_observer :: "ReactiveProxy \<Rightarrow> string \<Rightarrow> jsval \<Rightarrow> jsval \<Rightarrow> nat \<Rightarrow> rp_event list" where
  "call_observer s path v oldValue cb =
     Notified path cb v oldValue # (if cb \<in> set (throwing s) then [ObserverError path] else [])"

definition notify :: "string \<Rightarrow> jsval \<Rightarrow> jsval \<Rightarrow> ReactiveProxy \<Rightarrow> ReactiveProxy" where
  "notify path v oldValue s =
     (case map_of (observers_rp s) path of
        None \<Rightarrow> s
      | Some cbs \<Rightarrow> s\<lparr>notified := notified s @ concat (map (call_observer s path v oldValue) cbs)\<rparr>)"

text \<open>\<open>path ? `${path}.${prop}` : prop\<close>.\<close>

definition join_path :: "string \<Rightarrow> string \<Rightarrow> string" where
  "join_path path prop = (if path \<noteq> [] then path @ ''.'' @ prop else prop)"

subsection \<open>The traps of \<open>createProxy\<close>\<close>

text \<open>\<open>Array.isArray(obj)\<close> for the target of a proxy; it looks through proxies.\<close>

fun target_array :: "heap \<Rightarrow> jsval \<Rightarrow> bool" where
  "target_array h (Ref a) = is_array (heap_get h a)"
| "target_array h (Proxy t path) = target_array h t"
| "target_array h v = False"

text \<open>
  The \<open>get\<close> trap of \<open>createProxy(obj, path)\<close>: \<open>obj[prop]\<close>, wrapped by \<open>createProxy\<close>
  when it is an object. Where \<open>obj\<close> is itself a proxy, \<open>obj[prop]\<close> is what its \<open>get\<close> trap
  returns. No proxy is made of a primitive.
\<close>

fun get_trap :: "jsval \<Rightarrow> string \<Rightarrow> string \<Rightarrow> ReactiveProxy \<Rightarrow> js_error + jsval" where
  "get_trap (Ref a) path prop s =
     map_sum id (\<lambda>v. createProxy v (join_path path prop)) (obj_get (heap_get (store s) a) prop)"
| "get_trap (Proxy t p) path prop s =
     map_sum id (\<lambda>v. createProxy v (join_path path prop)) (get_trap t p prop s)"
| "get_trap obj path prop s = Inl Unmodelled"

text \<open>
  The end of the \<open>set\<close> trap, after \<open>oldValue\<close> has been read and the assignment made. For
  an array the trap has assigned through \<open>createArrayProxy(obj, path)\<close>, a proxy with a \<open>get\<close>
  trap only, so that the assignment was the ordinary one on \<open>obj\<close>, and it returns the
  assigned value. Nothing else is ever done with an array proxy. Otherwise the trap
  notifies and returns \<open>true\<close>.
\<close>

definition set_done ::
  "jsval \<Rightarrow> string \<Rightarrow> string \<Rightarrow> jsval \<Rightarrow> jsval \<Rightarrow> ReactiveProxy \<Rightarrow> (js_error + bool) \<times> ReactiveProxy" where
  "set_done obj path prop v oldValue s1 =
     (if target_array (store s1) obj then (Inr (truthy v), s1)
      else (let s2 = notify (join_path path prop) v oldValue s1;
                s3 = (if path \<noteq> [] then notify path obj obj s2 else s2)
            in (Inr True, s3)))"

text \<open>
  The \<open>set\<close> trap of \<open>createProxy(obj, path)\<close>; its result is an exception or the value it
  returns, as a boolean. Where \<open>obj\<close> is itself a proxy, reading \<open>obj[prop]\<close> and assigning
  to it run the traps of that proxy; the assignment is in strict code (a class body), so it
  throws a \<open>TypeError\<close> when that \<open>set\<close> trap returns a falsy value.
\<close>

fun set_trap ::
  "jsval \<Rightarrow> string \<Rightarrow> string \<Rightarrow> jsval \<Rightarrow> ReactiveProxy \<Rightarrow> (js_error + bool) \<times> ReactiveProxy" where
  "set_trap (Ref a) path prop v s =
     (case obj_get (heap_get (store s) a) prop of
        Inl e \<Rightarrow> (Inl e, s)
      | Inr oldValue \<Rightarrow>
          (case obj_put (heap_get (store s) a) prop v of
             Inl e \<Rightarrow> (Inl e, s)
           | Inr ob' \<Rightarrow>
               set_done (Ref a) path prop v oldValue (s\<lparr>store := store_put (store s) a ob'\<rparr>)))"
| "set_trap (Proxy t p) path prop v s =
     (case get_trap t p prop s of
        Inl e \<Rightarrow> (Inl e, s)
      | Inr oldValue \<Rightarrow>
          (case set_trap t p prop v s of
             (Inl e, s1) \<Rightarrow> (Inl e, s1)
           | (Inr ok, s1) \<Rightarrow>
               if ok then set_done (Proxy t p) path prop v oldValue s1
               else (Inl TypeError, s1)))"
| "set_trap obj path prop v s = (Inl Unmodelled, s)"

text \<open>The \<open>deleteProperty\<close> trap.\<close>

fun delete_trap ::
  "jsval \<Rightarrow> string \<Rightarrow> string \<Rightarrow> ReactiveProxy \<Rightarrow> (js_error + bool) \<times> ReactiveProxy" where
  "delete_trap (Ref a) path prop s =
     (case obj_get (heap_get (store s) a) prop of
        Inl e \<Rightarrow> (Inl e, s)
      | Inr oldValue \<Rightarrow>
          (case obj_delete (heap_get (store s) a) prop of
             Inl e \<Rightarrow> (Inl e, s)
           | Inr ob' \<Rightarrow>
               (Inr True, notify (join_path path prop) Undefined oldValue
                            (s\<lparr>store := store_put (store s) a ob'\<rparr>))))"
| "delete_trap (Proxy t p) path prop s =
     (case get_trap t p prop s of
        Inl e \<Rightarrow> (Inl e, s)
      | Inr oldValue \<Rightarrow>
          (case delete_trap t p prop s of
             (Inl e, s1) \<Rightarrow> (Inl e, s1)
           | (Inr ok, s1) \<Rightarrow>
               if ok then (Inr True, notify (join_path path prop) Undefined oldValue s1)
               else (Inl TypeError, s1)))"
| "delete_trap obj path prop s = (Inl Unmodelled, s)"

text \<open>\<open>p[prop] = value\<close> and \<open>delete p[prop]\<close> on the proxy \<open>p\<close> of \<open>obj\<close> and \<open>path\<close>, in
  strict code (a class body, a module): a trap that returns a falsy value makes the
  operation throw a \<open>TypeError\<close>.\<close>

definition proxy_assign ::
  "jsval \<Rightarrow> string \<Rightarrow> string \<Rightarrow> jsval \<Rightarrow> ReactiveProxy \<Rightarrow> js_error option \<times> ReactiveProxy" where
  "proxy_assign obj path prop v s =
     (case set_trap obj path prop v s of
        (Inl e, s') \<Rightarrow> (Some e, s')
      | (Inr ok, s') \<Rightarrow> (if ok then None else Some TypeError, s'))"

definition proxy_delete ::
  "jsval \<Rightarrow> string \<Rightarrow> string \<Rightarrow> ReactiveProxy \<Rightarrow> js_error option \<times> ReactiveProxy" where
  "proxy_delete obj path prop s =
     (case delete_trap obj path prop s of
        (Inl e, s') \<Rightarrow> (Some e, s')
      | (Inr ok, s') \<Rightarrow> (if ok then None else Some TypeError, s'))"

subsection \<open>Reading and writing a value\<close>

text \<open>\<open>v[key]\<close> for a primitive \<open>v\<close>.\<close>

definition prim_get :: "jsval \<Rightarrow> string \<Rightarrow> js_error + jsval" where
  "prim_get v k =
     (case v of
        Undefined \<Rightarrow> Inl TypeError
      | Null \<Rightarrow> Inl TypeError
      | JStr str \<Rightarrow>
          if k = ''length'' then Inr (JNum (int (length str)))
          else (case array_index k of
                  Some i \<Rightarrow> Inr (if i < length str then JStr [str ! i] else Undefined)
                | None \<Rightarrow> if builtin k then Inl Unmodelled else Inr Undefined)
      | _ \<Rightarrow> if builtin k then Inl Unmodelled else Inr Undefined)"

text \<open>\<open>current[key]\<close>: through the \<open>get\<close> trap for a proxy, directly for an object of the
  store.\<close>

definition pv_get :: "jsval \<Rightarrow> string \<Rightarrow> ReactiveProxy \<Rightarrow> js_error + jsval" where
  "pv_get current k s =
     (case current of
        Proxy t path \<Rightarrow> get_trap t path k s
      | Ref a \<Rightarrow> obj_get (heap_get (store s) a) k
      | _ \<Rightarrow> prim_get current k)"

text \<open>\<open>current[key] = value\<close> in strict code. On \<open>undefined\<close> and \<open>null\<close> it throws; on
  another primitive it throws as well, except that \<open>__proto__\<close> finds a setter, which does
  nothing for a primitive.\<close>

definition pv_set :: "jsval \<Rightarrow> string \<Rightarrow> jsval \<Rightarrow> ReactiveProxy \<Rightarrow> js_error option \<times> ReactiveProxy" where
  "pv_set current k v s =
     (case current of
        Proxy t path \<Rightarrow> proxy_assign t path k v s
      | Ref a \<Rightarrow>
          (case obj_put (heap_get (store s) a) k v of
             Inl e \<Rightarrow> (Some e, s)
           | Inr ob' \<Rightarrow> (None, s\<lparr>store := store_put (store s) a ob'\<rparr>))
      | Undefined \<Rightarrow> (Some TypeError, s)
      | Null \<Rightarrow> (Some TypeError, s)
      | _ \<Rightarrow> (if k = ''__proto__'' then None else Some TypeError, s))"

text \<open>An object or array literal: a new object of the store.\<close>

definition alloc :: "jsobj \<Rightarrow> ReactiveProxy \<Rightarrow> nat \<times> ReactiveProxy" where
  "alloc ob s = (length (store s), s\<lparr>store := store s @ [ob]\<rparr>)"

subsection \<open>\<open>set\<close> and \<open>get\<close> by path\<close>

text \<open>\<open>path.split('.')\<close>; the result is never empty.\<close>

fun split_dot :: "string \<Rightarrow> string list" where
  "split_dot [] = [[]]"
| "split_dot (c # cs) =
     (if c = CHR ''.'' then [] # split_dot cs
      else (case split_dot cs of [] \<Rightarrow> [[c]] | w # ws \<Rightarrow> (c # w) # ws))"

text \<open>\<open>key.match(/^(\w+)\[(\d+)\]$/)\<close>: the two groups, or none.\<close>

definition arrayMatch :: "string \<Rightarrow> (string \<times> string) option" where
  "arrayMatch k =
     (let arrayName = takeWhile is_word k; rest = dropWhile is_word k
      in if arrayName \<noteq> [] \<and> 3 \<le> length rest \<and> hd rest = CHR ''['' \<and> last rest = CHR '']''
            \<and> list_all is_digit (butlast (tl rest))
         then Some (arrayName, butlast (tl rest)) else None)"

text \<open>\<open>current[arrayName][index]\<close> and \<open>current[arrayName][index] = value\<close>.\<close>

definition pv_get2 :: "jsval \<Rightarrow> string \<Rightarrow> string \<Rightarrow> ReactiveProxy \<Rightarrow> js_error + jsval" where
  "pv_get2 current k1 k2 s =
     (case pv_get current k1 s of Inl e \<Rightarrow> Inl e | Inr inner \<Rightarrow> pv_get inner k2 s)"

definition pv_set2 ::
  "jsval \<Rightarrow> string \<Rightarrow> string \<Rightarrow> jsval \<Rightarrow> ReactiveProxy \<Rightarrow> js_error option \<times> ReactiveProxy" where
  "pv_set2 current k1 k2 v s =
     (case pv_get current k1 s of Inl e \<Rightarrow> (Some e, s) | Inr inner \<Rightarrow> pv_set inner k2 v s)"

text \<open>The \<open>else\<close> branch of the loop body of \<open>set\<close> (145-148), ending with the new
  \<open>current\<close>.\<close>

definition descend_key :: "string \<Rightarrow> jsval \<Rightarrow> ReactiveProxy \<Rightarrow> (js_error + jsval) \<times> ReactiveProxy" where
  "descend_key k current s =
     (case pv_get current k s of
        Inl e \<Rightarrow> (Inl e, s)
      | Inr v \<Rightarrow>
          if \<not> truthy v \<or> \<not> typeof_object v
          then (let (b, s1) = alloc (Obj []) s
                in case pv_set current k (Ref b) s1 of
                     (Some e, s2) \<Rightarrow> (Inl e, s2)
                   | (None, s2) \<Rightarrow> (pv_get current k s2, s2))
          else (Inr v, s))"

text \<open>The \<open>if (arrayMatch)\<close> branch (136-143).\<close>

definition ensure_array :: "string \<Rightarrow> jsval \<Rightarrow> ReactiveProxy \<Rightarrow> js_error option \<times> ReactiveProxy" where
  "ensure_array arrayName current s =
     (case pv_get current arrayName s of
        Inl e \<Rightarrow> (Some e, s)
      | Inr v \<Rightarrow>
          if \<not> truthy v
          then (let (b, s1) = alloc (Arr 0 []) s in pv_set current arrayName (Ref b) s1)
          else (None, s))"

definition ensure_item ::
  "string \<Rightarrow> string \<Rightarrow> jsval \<Rightarrow> ReactiveProxy \<Rightarrow> js_error option \<times> ReactiveProxy" where
  "ensure_item arrayName index current s =
     (case pv_get2 current arrayName index s of
        Inl e \<Rightarrow> (Some e, s)
      | Inr v \<Rightarrow>
          if \<not> truthy v
          then (let (b, s1) = alloc (Obj []) s in pv_set2 current arrayName index (Ref b) s1)
          else (None, s))"

definition descend_item ::
  "string \<Rightarrow> string \<Rightarrow> jsval \<Rightarrow> ReactiveProxy \<Rightarrow> (js_error + jsval) \<times> ReactiveProxy" where
  "descend_item arrayName index current s =
     (case ensure_array arrayName current s of
        (Some e, s1) \<Rightarrow> (Inl e, s1)
      | (None, s1) \<Rightarrow>
          (case ensure_item arrayName index current s1 of
             (Some e, s2) \<Rightarrow> (Inl e, s2)
           | (None, s2) \<Rightarrow> (pv_get2 current arrayName index s2, s2)))"

definition descend :: "string \<Rightarrow> jsval \<Rightarrow> ReactiveProxy \<Rightarrow> (js_error + jsval) \<times> ReactiveProxy" where
  "descend k current s =
     (case arrayMatch k of
        Some (arrayName, index) \<Rightarrow> descend_item arrayName index current s
      | None \<Rightarrow> descend_key k current s)"

text \<open>The loop of \<open>set\<close> over all keys but the last, then \<open>current[lastKey] = value\<close>.\<close>

fun set_walk :: "string list \<Rightarrow> jsval \<Rightarrow> jsval \<Rightarrow> ReactiveProxy \<Rightarrow> js_error option \<times> ReactiveProxy" where
  "set_walk [] current v s = (None, s)"
| "set_walk [lastKey] current v s = pv_set current lastKey v s"
| "set_walk (k # ks) current v s =
     (case descend k current s of
        (Inl e, s1) \<Rightarrow> (Some e, s1)
      | (Inr current1, s1) \<Rightarrow> set_walk ks current1 v s1)"

definition set_path :: "string \<Rightarrow> jsval \<Rightarrow> ReactiveProxy \<Rightarrow> js_error option \<times> ReactiveProxy" where
  "set_path path v s = set_walk (split_dot path) (proxy s) v s"

text \<open>\<open>obj?.[key]\<close>.\<close>

definition opt_get :: "jsval \<Rightarrow> string \<Rightarrow> ReactiveProxy \<Rightarrow> js_error + jsval" where
  "opt_get ob k s =
     (case ob of Undefined \<Rightarrow> Inr Undefined | Null \<Rightarrow> Inr Undefined | _ \<Rightarrow> pv_get ob k s)"

text \<open>The function given to \<open>reduce\<close>.\<close>

definition get_step :: "ReactiveProxy \<Rightarrow> string \<Rightarrow> jsval \<Rightarrow> js_error + jsval" where
  "get_step s k ob =
     (case arrayMatch k of
        Some (arrayName, index) \<Rightarrow>
          (case opt_get ob arrayName s of Inl e \<Rightarrow> Inl e | Inr inner \<Rightarrow> opt_get inner index s)
      | None \<Rightarrow> opt_get ob k s)"

fun get_walk :: "string list \<Rightarrow> jsval \<Rightarrow> ReactiveProxy \<Rightarrow> js_error + jsval" where
  "get_walk [] ob s = Inr ob"
| "get_walk (k # ks) ob s =
     (case get_step s k ob of Inl e \<Rightarrow> Inl e | Inr v \<Rightarrow> get_walk ks v s)"

definition get_path :: "string \<Rightarrow> ReactiveProxy \<Rightarrow> js_error + jsval" where
  "get_path path s = get_walk (split_dot path) (proxy s) s"

subsection \<open>The native \<open>push\<close> and \<open>unshift\<close>, called on a proxy\<close>

text \<open>
  \<open>p.push(...items)\<close> finds \<open>Array.prototype.push\<close> through the \<open>get\<close> trap, which returns
  a function as it is, and runs it with the proxy as \<open>this\<close>. As ECMAScript defines it, the
  method reads \<open>length\<close>, assigns each item to the next index and assigns the new \<open>length\<close>,
  each through the proxy, throwing when an assignment fails.
\<close>

definition length_of :: "js_error + jsval \<Rightarrow> nat" where
  "length_of r = (case r of Inr (JNum n) \<Rightarrow> nat n | _ \<Rightarrow> 0)"

fun push_loop ::
  "jsval \<Rightarrow> string \<Rightarrow> nat \<Rightarrow> jsval list \<Rightarrow> ReactiveProxy \<Rightarrow> (js_error + jsval) \<times> ReactiveProxy" where
  "push_loop obj path len [] s =
     (case proxy_assign obj path ''length'' (JNum (int len)) s of
        (Some e, s1) \<Rightarrow> (Inl e, s1)
      | (None, s1) \<Rightarrow> (Inr (JNum (int len)), s1))"
| "push_loop obj path len (x # xs) s =
     (case proxy_assign obj path (string_of_nat len) x s of
        (Some e, s1) \<Rightarrow> (Inl e, s1)
      | (None, s1) \<Rightarrow> push_loop obj path (Suc len) xs s1)"

definition proxy_push ::
  "jsval \<Rightarrow> string \<Rightarrow> jsval list \<Rightarrow> ReactiveProxy \<Rightarrow> (js_error + jsval) \<times> ReactiveProxy" where
  "proxy_push obj path items s =
     push_loop obj path (length_of (get_trap obj path ''length'' s)) items s"

text \<open>The object of the store a proxy stands for in the end, and \<open>HasProperty\<close> for an
  index, which no prototype has.\<close>

fun target_object :: "heap \<Rightarrow> jsval \<Rightarrow> jsobj" where
  "target_object h (Ref a) = heap_get h a"
| "target_object h (Proxy t path) = target_object h t"
| "target_object h v = Obj []"

definition has_index :: "jsval \<Rightarrow> nat \<Rightarrow> ReactiveProxy \<Rightarrow> bool" where
  "has_index obj k s = (map_of (props_of (target_object (store s) obj)) (string_of_nat k) \<noteq> None)"

text \<open>
  \<open>Array.prototype.unshift\<close> with the proxy as \<open>this\<close>: from the last element down, an
  element that is present is read through the proxy and assigned \<open>argCount\<close> places up, a
  hole makes the place \<open>argCount\<close> up a hole (through the \<open>deleteProperty\<close> trap); then the
  items are assigned from index 0 and the new \<open>length\<close> is assigned. An object read through
  the proxy comes as a proxy, and that proxy is what is assigned.
\<close>

fun shift_up :: "jsval \<Rightarrow> string \<Rightarrow> nat \<Rightarrow> nat \<Rightarrow> ReactiveProxy \<Rightarrow> js_error option \<times> ReactiveProxy" where
  "shift_up obj path argCount 0 s = (None, s)"
| "shift_up obj path argCount (Suc k) s =
     (if has_index obj k s
      then (case get_trap obj path (string_of_nat k) s of
              Inl e \<Rightarrow> (Some e, s)
            | Inr fromValue \<Rightarrow>
                (case proxy_assign obj path (string_of_nat (k + argCount)) fromValue s of
                   (Some e, s1) \<Rightarrow> (Some e, s1)
                 | (None, s1) \<Rightarrow> shift_up obj path argCount k s1))
      else (case proxy_delete obj path (string_of_nat (k + argCount)) s of
              (Some e, s1) \<Rightarrow> (Some e, s1)
            | (None, s1) \<Rightarrow> shift_up obj path argCount k s1))"

fun assign_items :: "jsval \<Rightarrow> string \<Rightarrow> nat \<Rightarrow> jsval list \<Rightarrow> ReactiveProxy \<Rightarrow> js_error option \<times> ReactiveProxy" where
  "assign_items obj path j [] s = (None, s)"
| "assign_items obj path j (x # xs) s =
     (case proxy_assign obj path (string_of_nat j) x s of
        (Some e, s1) \<Rightarrow> (Some e, s1)
      | (None, s1) \<Rightarrow> assign_items obj path (Suc j) xs s1)"

definition proxy_unshift ::
  "jsval \<Rightarrow> string \<Rightarrow> jsval list \<Rightarrow> ReactiveProxy \<Rightarrow> (js_error + jsval) \<times> ReactiveProxy" where
  "proxy_unshift obj path items s =
     (let len = length_of (get_trap obj path ''length'' s); argCount = length items
      in case (if 0 < argCount
               then (case shift_up obj path argCount len s of
                       (Some e, s1) \<Rightarrow> (Some e, s1)
                     | (None, s1) \<Rightarrow> assign_items obj path 0 items s1)
               else (None, s)) of
           (Some e, s2) \<Rightarrow> (Inl e, s2)
         | (None, s2) \<Rightarrow>
             (case proxy_assign obj path ''length'' (JNum (int (len + argCount))) s2 of
                (Some e, s3) \<Rightarrow> (Inl e, s3)
              | (None, s3) \<Rightarrow> (Inr (JNum (int (len + argCount))), s3)))"

datatype array_method = Push | Unshift

definition method_name :: "array_method \<Rightarrow> string" where
  "method_name m = (case m of Push \<Rightarrow> ''push'' | Unshift \<Rightarrow> ''unshift'')"

text \<open>
  \<open>p[method](...items)\<close> for a value \<open>p\<close> that a read through the proxy has yielded. Only
  the proxy of an array without an own property of that name finds the native method: an
  own property holds data, a plain object and a primitive have no such method, and calling
  what is not a function throws. A read through the proxy never yields an object of the
  store as it is.
\<close>

definition call_method ::
  "array_method \<Rightarrow> jsval \<Rightarrow> jsval list \<Rightarrow> ReactiveProxy \<Rightarrow> (js_error + jsval) \<times> ReactiveProxy" where
  "call_method m p items s =
     (case p of
        Proxy t path \<Rightarrow>
          if target_array (store s) t \<and> own (target_object (store s) t) (method_name m) = None
          then (case m of Push \<Rightarrow> proxy_push t path items s
                        | Unshift \<Rightarrow> proxy_unshift t path items s)
          else (Inl TypeError, s)
      | Ref a \<Rightarrow> (Inl Unmodelled, s)
      | _ \<Rightarrow> (Inl TypeError, s))"

subsection \<open>\<open>createArrayProxy\<close> (79-106)\<close>

text \<open>
  The function the \<open>get\<close> trap of an array proxy returns for \<open>push\<close> and \<open>unshift\<close> (the other
  five intercepted methods take the same route without the item notifications and are not
  given here), for an array of the store. It copies the array (\<open>[...obj]\<close>, a hole read as
  \<open>undefined\<close>), runs the native method on the array itself, notifies the array's path with
  the array and the copy, and notifies one item path per argument. \<open>createProxy\<close> makes an
  array proxy only as the target of one assignment in its \<open>set\<close> trap, so no read ever
  reaches this trap.
\<close>

definition lookup :: "(string \<times> jsval) list \<Rightarrow> string \<Rightarrow> jsval" where
  "lookup ps k = (case map_of ps k of None \<Rightarrow> Undefined | Some v \<Rightarrow> v)"

definition spread_copy :: "jsobj \<Rightarrow> jsobj" where
  "spread_copy ob =
     (case ob of
        Arr n ps \<Rightarrow> Arr n (map (\<lambda>i. (string_of_nat i, lookup ps (string_of_nat i))) [0 ..< n])
      | Obj ps \<Rightarrow> Arr 0 [])"

fun unshift_move :: "nat \<Rightarrow> nat \<Rightarrow> (string \<times> jsval) list \<Rightarrow> (string \<times> jsval) list" where
  "unshift_move argCount 0 ps = ps"
| "unshift_move argCount (Suc k) ps =
     unshift_move argCount k
       (case map_of ps (string_of_nat k) of
          Some v \<Rightarrow> AList.update (string_of_nat (k + argCount)) v ps
        | None \<Rightarrow> AList.delete (string_of_nat (k + argCount)) ps)"

definition put_items :: "nat \<Rightarrow> jsval list \<Rightarrow> (string \<times> jsval) list \<Rightarrow> (string \<times> jsval) list" where
  "put_items start items ps =
     fold (\<lambda>p. AList.update (string_of_nat (fst p)) (snd p))
       (zip [start ..< start + length items] items) ps"

definition native_call :: "array_method \<Rightarrow> jsobj \<Rightarrow> jsval list \<Rightarrow> jsobj" where
  "native_call m ob items =
     (case ob of
        Obj ps \<Rightarrow> ob
      | Arr n ps \<Rightarrow>
          (case m of
             Push \<Rightarrow> Arr (n + length items) (put_items n items ps)
           | Unshift \<Rightarrow>
               Arr (n + length items)
                 (if items = [] then ps else put_items 0 items (unshift_move (length items) n ps))))"

definition item_path :: "string \<Rightarrow> nat \<Rightarrow> string" where
  "item_path path i = path @ ''['' @ string_of_nat i @ '']''"

definition arrayProxy_call ::
  "nat \<Rightarrow> string \<Rightarrow> array_method \<Rightarrow> jsval list \<Rightarrow> ReactiveProxy \<Rightarrow> ReactiveProxy" where
  "arrayProxy_call a path m args s =
     (let ob = heap_get (store s) a;
          (oldArray, s1) = alloc (spread_copy ob) s;
          ob' = native_call m ob args;
          s2 = s1\<lparr>store := store_put (store s1) a ob'\<rparr>;
          s3 = notify path (Ref a) (Ref oldArray) s2;
          n' = (case ob' of Arr l ps \<Rightarrow> l | Obj ps \<Rightarrow> 0)
      in fold (\<lambda>p. notify (item_path path (case m of Push \<Rightarrow> n' - length args + fst p | Unshift \<Rightarrow> fst p))
                       (snd p) Undefined)
           (zip [0 ..< length args] args) s3)"

subsection \<open>Operations through the wrapper\<close>

text \<open>
  What a caller can do with a wrapper: \<open>set\<close> and \<open>get\<close> by path; a write, a deletion, a
  \<open>push\<close> or an \<open>unshift\<close> on \<open>getProxy()\<close> followed by a chain of property reads; \<open>observe\<close>
  and the function it returned. A value that is written may be a proxy that a read has
  yielded. \<open>rp_step\<close> gives how the operation ends and the state it leaves: an exception
  ends the operation and leaves the state as the operation had made it by then.
\<close>

datatype rp_op =
    OpSet string jsval
  | OpGet string
  | OpWrite "string list" string jsval
  | OpDelete "string list" string
  | OpCall "string list" array_method "jsval list"
  | OpObserve string nat
  | OpUnsubscribe string nat

fun navigate :: "string list \<Rightarrow> jsval \<Rightarrow> ReactiveProxy \<Rightarrow> js_error + jsval" where
  "navigate [] p s = Inr p"
| "navigate (k # ks) p s = (case pv_get p k s of Inl e \<Rightarrow> Inl e | Inr q \<Rightarrow> navigate ks q s)"

text \<open>\<open>delete p[key]\<close> in strict code for a value \<open>p\<close>: nothing happens on a primitive other
  than \<open>undefined\<close> and \<open>null\<close>, unless the key is an own property of a string.\<close>

definition pv_delete :: "jsval \<Rightarrow> string \<Rightarrow> ReactiveProxy \<Rightarrow> js_error option \<times> ReactiveProxy" where
  "pv_delete p k s =
     (case p of
        Proxy t path \<Rightarrow> proxy_delete t path k s
      | Ref a \<Rightarrow>
          (case obj_delete (heap_get (store s) a) k of
             Inl e \<Rightarrow> (Some e, s)
           | Inr ob' \<Rightarrow> (None, s\<lparr>store := store_put (store s) a ob'\<rparr>))
      | Undefined \<Rightarrow> (Some TypeError, s)
      | Null \<Rightarrow> (Some TypeError, s)
      | JStr str \<Rightarrow>
          (if k = ''length'' \<or> (case array_index k of Some i \<Rightarrow> i < length str | None \<Rightarrow> False)
           then Some TypeError else None, s)
      | _ \<Rightarrow> (None, s))"

fun rp_step :: "rp_op \<Rightarrow> ReactiveProxy \<Rightarrow> js_error option \<times> ReactiveProxy" where
  "rp_step (OpSet path v) s = set_path path v s"
| "rp_step (OpGet path) s = (case get_path path s of Inl e \<Rightarrow> (Some e, s) | Inr v \<Rightarrow> (None, s))"
| "rp_step (OpWrite ks prop v) s =
     (case navigate ks (proxy s) s of Inl e \<Rightarrow> (Some e, s) | Inr p \<Rightarrow> pv_set p prop v s)"
| "rp_step (OpDelete ks prop) s =
     (case navigate ks (proxy s) s of Inl e \<Rightarrow> (Some e, s) | Inr p \<Rightarrow> pv_delete p prop s)"
| "rp_step (OpCall ks m items) s =
     (case navigate ks (proxy s) s of
        Inl e \<Rightarrow> (Some e, s)
      | Inr p \<Rightarrow> (case call_method m p items s of (Inl e, s1) \<Rightarrow> (Some e, s1) | (Inr v, s1) \<Rightarrow> (None, s1)))"
| "rp_step (OpObserve path cb) s = (None, observe path cb s)"
| "rp_step (OpUnsubscribe path cb) s = (None, unsubscribe path cb s)"

definition rp_exec :: "rp_op \<Rightarrow> ReactiveProxy \<Rightarrow> ReactiveProxy" where
  "rp_exec op s = snd (rp_step op s)"

definition rp_run :: "rp_op list \<Rightarrow> ReactiveProxy \<Rightarrow> ReactiveProxy" where
  "rp_run ops s = fold rp_exec ops s"

text \<open>No operation of the run ends \<open>Unmodelled\<close>.\<close>

fun stays_modelled :: "rp_op list \<Rightarrow> ReactiveProxy \<Rightarrow> bool" where
  "stays_modelled [] s = True"
| "stays_modelled (op # ops) s =
     (fst (rp_step op s) \<noteq> Some Unmodelled \<and> stays_modelled ops (rp_exec op s))"

subsection \<open>Change Registry: reference notions the properties are stated with\<close>

text \<open>
  A set \<open>P\<close> of objects of the store is kept apart when a value does not refer into it (a
  proxy refers to what its target refers to), an object has no property that refers into
  it, and so on. \<open>apart P h0 h\<close>: the store \<open>h\<close> has grown out of \<open>h0\<close>, the objects of \<open>P\<close>
  are objects of \<open>h0\<close> and are in \<open>h\<close> what they were in \<open>h0\<close>, and no object outside \<open>P\<close>
  refers into \<open>P\<close>.
\<close>

fun val_avoids :: "nat set \<Rightarrow> jsval \<Rightarrow> bool" where
  "val_avoids P (Ref b) = (b \<notin> P)"
| "val_avoids P (Proxy t path) = val_avoids P t"
| "val_avoids P v = True"

definition obj_avoids :: "nat set \<Rightarrow> jsobj \<Rightarrow> bool" where
  "obj_avoids P ob = list_all (\<lambda>p. val_avoids P (snd p)) (props_of ob)"










text \<open>An object with other properties in place of its own.\<close>

definition with_props :: "jsobj \<Rightarrow> (string \<times> jsval) list \<Rightarrow> jsobj" where
  "with_props ob qs = (case ob of Obj ps \<Rightarrow> Obj qs | Arr n ps \<Rightarrow> Arr n qs)"

text \<open>
  Sample stores and wrappers. \<open>h_items\<close> holds \<open>{items: [1, 2]}\<close>, \<open>h_flat\<close> holds
  \<open>{a: 1}\<close>, \<open>h_empty\<close> holds \<open>{}\<close>, \<open>h_a5\<close> holds \<open>{a: 5}\<close>,
  \<open>h_nested\<close> holds \<open>{a: {x: 0}}\<close> and \<open>h_deep\<close> holds \<open>{a: 1, list: [{k: true}, , "s"]}\<close>,
  each at address 0. The wrappers are what the constructor makes of them; the watched ones
  have callbacks registered.
\<close>

definition h_items :: heap where
  "h_items = [Obj [(''items'', Ref 1)], Arr 2 [(''0'', JNum 1), (''1'', JNum 2)]]"


definition h_empty :: heap where
  "h_empty = [Obj []]"

definition h_a5 :: heap where
  "h_a5 = [Obj [(''a'', JNum 5)]]"

definition h_nested :: heap where
  "h_nested = [Obj [(''a'', Ref 1)], Obj [(''x'', JNum 0)]]"


definition wrap :: "heap \<Rightarrow> jsval \<Rightarrow> heap \<Rightarrow> ReactiveProxy" where
  "wrap h t clone =
     \<lparr>observers_rp = [], target = t, proxy = createProxy t [], store = h @ clone,
      throwing = [], notified = []\<rparr>"

definition items_wrapper :: ReactiveProxy where
  "items_wrapper =
     wrap h_items (Ref 2) [Obj [(''items'', Ref 3)], Arr 2 [(''0'', JNum 1), (''1'', JNum 2)]]"

definition items_watched :: ReactiveProxy where
  "items_watched = rp_run [OpObserve ''items'' 7, OpObserve ''items[2]'' 8] items_wrapper"

definition items_element_watched :: ReactiveProxy where
  "items_element_watched =
     rp_run [OpObserve ''items'' 7, OpObserve ''items.0'' 8, OpObserve ''items[0]'' 9] items_wrapper"


definition empty_wrapper :: ReactiveProxy where
  "empty_wrapper = wrap h_empty (Ref 1) [Obj []]"

definition a5_wrapper :: ReactiveProxy where
  "a5_wrapper = wrap h_a5 (Ref 1) [Obj [(''a'', JNum 5)]]"

definition nested_wrapper :: ReactiveProxy where
  "nested_wrapper = wrap h_nested (Ref 2) [Obj [(''a'', Ref 3)], Obj [(''x'', JNum 0)]]"

definition nested_watched :: ReactiveProxy where
  "nested_watched = rp_run [OpObserve ''a.x'' 7] nested_wrapper"




section \<open>Update Scheduler: properties\<close>

lemma priorityOrder_rank: "priorityOrder p = spec_rank p"
  by (cases p) (simp_all add: priorityOrder_def)

lemma compareTasks_le: "compareTasks a b \<le> 0 \<longleftrightarrow> spec_key a \<le> spec_key b"
  by (auto simp: compareTasks_def spec_key_def Let_def priorityOrder_rank)

lemma insert_by_insort: "insert_by compareTasks x ys = insort_key spec_key x ys"
  by (induction ys) (simp_all add: compareTasks_le)

lemma array_sort_sort_key: "array_sort compareTasks xs = sort_key spec_key xs"
  by (induction xs) (simp_all add: array_sort_def insert_by_insort)

lemma out_applyUpdate: "out (applyUpdate env el ch s) = out s @ update_effects env (updateHandlers s) el ch"
  by (simp add: applyUpdate_def emit_def)

lemma handlers_apply_task [simp]: "updateHandlers (apply_task env t s) = updateHandlers s"
  by (simp add: apply_task_def applyUpdate_def emit_def Let_def)


lemma pending_apply_task: "scheduledUpdates (apply_task env t s) = AList.delete (element t) (scheduledUpdates s)"
  by (simp add: apply_task_def applyUpdate_def emit_def Let_def)

lemma fold_apply_task_handlers [simp]: "updateHandlers (fold (apply_task env) ts s) = updateHandlers s"
  by (induction ts arbitrary: s) simp_all


lemma filter_delete_keys:
  "filter (\<lambda>p. fst p \<notin> A) (AList.delete k xs) = filter (\<lambda>p. fst p \<notin> insert k A) xs"
  by (induction xs) auto

lemma fold_apply_task_pending:
  "scheduledUpdates (fold (apply_task env) ts s) =
     filter (\<lambda>p. fst p \<notin> element ` set ts) (scheduledUpdates s)"
  by (induction ts arbitrary: s) (simp_all add: pending_apply_task filter_delete_keys)



lemma map_of_group_step:
  "map_of (group_step t g) x =
     (if x = element t
      then Some (spread (case map_of g x of None \<Rightarrow> emptyChanges | Some c \<Rightarrow> c) (changes t))
      else map_of g x)"
  by (simp add: group_step_def Let_def update_conv' split: option.splits)

lemma distinct_group_step: "distinct (map fst g) \<Longrightarrow> distinct (map fst (group_step t g))"
  by (simp add: group_step_def Let_def distinct_update)

lemma map_of_fold_group_step:
  "map_of (fold group_step q g) x =
     (if filter (\<lambda>t. element t = x) q = [] then map_of g x
      else Some (foldl spread (case map_of g x of None \<Rightarrow> emptyChanges | Some c \<Rightarrow> c)
                   (map changes (filter (\<lambda>t. element t = x) q))))"
proof (induction q arbitrary: g)
  case Nil
  then show ?case by simp
next
  case (Cons t q)
  show ?case
    by (simp add: Cons.IH map_of_group_step)
qed

lemma distinct_fold_group_step:
  "distinct (map fst g) \<Longrightarrow> distinct (map fst (fold group_step q g))"
  by (induction q arbitrary: g) (simp_all add: distinct_group_step)

lemma latest_Nil: "latest f [] = Absent"
  by (simp add: latest_def)

lemma latest_snoc: "latest f (cs @ [c]) = spread_field (latest f cs) (f c)"
  by (cases "f c"; cases "filter (\<lambda>x. x \<noteq> Absent) (map f cs)")
    (simp_all add: latest_def spread_field_def)

lemma foldl_spread_latest:
  "foldl spread emptyChanges cs =
     \<lparr>text_f = latest text_f cs, html_f = latest html_f cs,
      attributes_f = latest attributes_f cs, styles_f = latest styles_f cs,
      classes_f = latest classes_f cs, dataset_f = latest dataset_f cs\<rparr>"
proof (induction cs rule: rev_induct)
  case Nil
  then show ?case by (simp add: emptyChanges_def latest_Nil)
next
  case (snoc c cs)
  then show ?case by (simp add: spread_def latest_snoc)
qed

lemma map_of_group_tasks:
  "map_of (group_tasks q) x =
     (if \<exists>t \<in> set q. element t = x then Some (merged_changes x q) else None)"
  by (auto simp: group_tasks_def map_of_fold_group_step merged_changes_def Let_def
        foldl_spread_latest filter_empty_conv)

lemma distinct_group_tasks: "distinct (map fst (group_tasks q))"
  by (simp add: group_tasks_def distinct_fold_group_step)

lemma map_of_fold_pend_group:
  "distinct (map fst grouped) \<Longrightarrow>
   map_of (fold (pend_group now) grouped pending) x =
     (case map_of grouped x of
        Some c \<Rightarrow> Some \<lparr>element = x, changes = c, priority = Normal, timestamp = now x\<rparr>
      | None \<Rightarrow> map_of pending x)"
proof (induction grouped arbitrary: pending)
  case Nil
  then show ?case by simp
next
  case (Cons g grouped)
  obtain k c where g: "g = (k, c)" by (cases g)
  from Cons.prems g have k: "map_of grouped k = None" and d: "distinct (map fst grouped)"
    by (auto simp: map_of_eq_None_iff)
  have step: "map_of (pend_group now (k, c) pending) y =
      (if y = k then Some \<lparr>element = k, changes = c, priority = Normal, timestamp = now k\<rparr>
       else map_of pending y)" for y
    by (simp add: pend_group_def update_conv')
  show ?case
    using k by (auto simp: g Cons.IH [OF d] step split: option.splits)
qed

lemma distinct_fold_pend_group:
  "distinct (map fst pending) \<Longrightarrow> distinct (map fst (fold (pend_group now) grouped pending))"
proof (induction grouped arbitrary: pending)
  case Nil
  then show ?case by simp
next
  case (Cons g grouped)
  have "distinct (map fst (pend_group now g pending))"
    using Cons.prems by (simp add: pend_group_def distinct_update)
  then show ?case by (simp add: Cons.IH)
qed

lemma wf_update:
  "list_all (\<lambda>p. element (snd p) = fst p) xs \<Longrightarrow> element t = k \<Longrightarrow>
   list_all (\<lambda>p. element (snd p) = fst p) (AList.update k t xs)"
  by (induction xs) auto

lemma wf_delete:
  "list_all (\<lambda>p. element (snd p) = fst p) xs \<Longrightarrow>
   list_all (\<lambda>p. element (snd p) = fst p) (AList.delete k xs)"
  by (induction xs) auto

lemma wf_fold_pend_group:
  "list_all (\<lambda>p. element (snd p) = fst p) pending \<Longrightarrow>
   list_all (\<lambda>p. element (snd p) = fst p) (fold (pend_group now) grouped pending)"
proof (induction grouped arbitrary: pending)
  case Nil
  then show ?case by simp
next
  case (Cons g grouped)
  have "list_all (\<lambda>p. element (snd p) = fst p) (pend_group now g pending)"
    using Cons.prems by (simp add: pend_group_def wf_update)
  then show ?case by (simp add: Cons.IH)
qed

lemma pending_requestUpdate [simp]: "scheduledUpdates (requestUpdate s) = scheduledUpdates s"
  by (simp add: requestUpdate_def emit_def Let_def split: option.splits)

lemma pending_endBatch:
  "scheduledUpdates (endBatch now s) =
     fold (pend_group now) (group_tasks (batchQueue s)) (scheduledUpdates s)"
  by (simp add: endBatch_def Let_def)

lemma sched_inv_new: "sched_inv newReactiveUpdate"
  by (simp add: sched_inv_def pending_wf_def newReactiveUpdate_def)

lemma sched_inv_scheduleUpdate: "sched_inv s \<Longrightarrow> sched_inv (scheduleUpdate el ch pr now s)"
  by (simp add: sched_inv_def pending_wf_def scheduleUpdate_def Let_def wf_update distinct_update)

lemma sched_inv_startBatch: "sched_inv s \<Longrightarrow> sched_inv (startBatch s)"
  by (simp add: sched_inv_def pending_wf_def startBatch_def)

lemma sched_inv_endBatch: "sched_inv s \<Longrightarrow> sched_inv (endBatch now s)"
  by (simp add: sched_inv_def pending_wf_def pending_endBatch wf_fold_pend_group
        distinct_fold_pend_group)

lemma sched_inv_processUpdates: "sched_inv s \<Longrightarrow> sched_inv (processUpdates env s)"
  by (simp add: sched_inv_def pending_wf_def processUpdates_def fold_apply_task_pending
        list_all_iff distinct_map_filter)

lemma sched_inv_clearUpdates: "sched_inv (clearUpdates s)"
  by (simp add: sched_inv_def pending_wf_def clearUpdates_def emit_def Let_def split: option.splits)

lemma filter_flush_order_single:
  assumes "sched_inv s" and "map_of (scheduledUpdates s) n = Some t"
  shows "filter (\<lambda>t. element t = n) (flush_order s) = [t]"
proof -
  have wf: "\<forall>p \<in> set (scheduledUpdates s). element (snd p) = fst p"
    and d: "distinct (map fst (scheduledUpdates s))"
    using assms(1) by (simp_all add: sched_inv_def pending_wf_def list_all_iff)
  have "\<forall>p \<in> set xs. element (snd p) = fst p \<Longrightarrow>
      filter (\<lambda>t. element t = n) (map snd xs) = map snd (filter (\<lambda>p. fst p = n) xs)"
    for xs :: "(node \<times> UpdateTask) list"
    by (induction xs) auto
  from this [OF wf] have "filter (\<lambda>t. element t = n) (map snd (scheduledUpdates s))
      = map snd (filter (\<lambda>p. fst p = n) (scheduledUpdates s))" .
  moreover have "distinct (map fst xs) \<Longrightarrow> map_of xs n = Some t \<Longrightarrow>
      filter (\<lambda>p. fst p = n) xs = [(n, t)]" for xs :: "(node \<times> UpdateTask) list"
  proof (induction xs)
    case Nil
    then show ?case by simp
  next
    case (Cons p xs)
    then show ?case
      by (cases p) (auto simp: filter_empty_conv rev_image_eqI split: if_splits)
  qed
  ultimately show ?thesis
    using d assms(2) by (simp add: flush_order_def array_sort_sort_key filter_sort)
qed

lemma requestUpdate_fields:
  "rafId (requestUpdate s) = Some (nextFrame s)"
  "last (out (requestUpdate s)) = RequestFrame (nextFrame s)"
  "batchMode (requestUpdate s) = batchMode s"
  "batchQueue (requestUpdate s) = batchQueue s"
  "updateHandlers (requestUpdate s) = updateHandlers s"
  by (simp_all add: requestUpdate_def emit_def Let_def split: option.splits)



text \<open>
  Claim C4. While a batch is active \<open>scheduleUpdate\<close> only appends the task to the batch
  queue (the pending map, the frame request and the trace stay as they are). After
  \<open>endBatch\<close> the pending task of a node that occurs in the queue carries that node's queued
  change sets merged: each field is that of the last queued change set of the node that has
  the field, so a later field replaces an earlier one. Other nodes keep their pending task;
  the map still holds each node once; batch mode is off, the queue is empty and a frame has
  been requested. For the call sequence of the specification the flush order holds exactly
  one task for \<open>n\<close>, with both \<open>text\<close> and \<open>classes\<close>; with a third call that sets \<open>text\<close>
  again, the one task has the later text.
\<close>

theorem batch_merges_per_node:
  "(batchMode s \<longrightarrow>
      scheduleUpdate el ch pr t s =
        s\<lparr>batchQueue := batchQueue s
              @ [\<lparr>element = el, changes = ch, priority = pr, timestamp = t\<rparr>]\<rparr>)
   \<and> map_of (scheduledUpdates (endBatch now s)) el =
       (if \<exists>t \<in> set (batchQueue s). element t = el
        then Some \<lparr>element = el, changes = merged_changes el (batchQueue s),
                    priority = Normal, timestamp = now el\<rparr>
        else map_of (scheduledUpdates s) el)
   \<and> (distinct (map fst (scheduledUpdates s)) \<longrightarrow>
        distinct (map fst (scheduledUpdates (endBatch now s))))
   \<and> batchMode (endBatch now s) = False \<and> batchQueue (endBatch now s) = []
   \<and> rafId (endBatch now s) = Some (nextFrame s)
   \<and> last (out (endBatch now s)) = RequestFrame (nextFrame s)
   \<and> (sched_inv s \<longrightarrow>
        filter (\<lambda>t. element t = n) (flush_order (run_batch_example n t1 t2 now s)) =
          [\<lparr>element = n,
            changes = emptyChanges\<lparr>text_f := Val (TStr ''a''), classes_f := Val [(''x'', True)]\<rparr>,
            priority = Normal, timestamp = now n\<rparr>])
   \<and> (sched_inv s \<longrightarrow>
        filter (\<lambda>t. element t = n) (flush_order (run_overwrite_example n t1 t2 t3 now s)) =
          [\<lparr>element = n,
            changes = emptyChanges\<lparr>text_f := Val (TStr ''b''), html_f := Undef,
                                   classes_f := Val [(''x'', True)]\<rparr>,
            priority = Normal, timestamp = now n\<rparr>])"
proof -
  have a: "batchMode s \<longrightarrow>
      scheduleUpdate el ch pr t s =
        s\<lparr>batchQueue := batchQueue s
              @ [\<lparr>element = el, changes = ch, priority = pr, timestamp = t\<rparr>]\<rparr>"
    by (simp add: scheduleUpdate_def)
  have b: "map_of (scheduledUpdates (endBatch now s')) x =
       (if \<exists>t \<in> set (batchQueue s'). element t = x
        then Some \<lparr>element = x, changes = merged_changes x (batchQueue s'),
                    priority = Normal, timestamp = now x\<rparr>
        else map_of (scheduledUpdates s') x)" for s' x
    by (simp add: pending_endBatch map_of_fold_pend_group distinct_group_tasks map_of_group_tasks)
  have c: "distinct (map fst (scheduledUpdates s)) \<longrightarrow>
        distinct (map fst (scheduledUpdates (endBatch now s)))"
    by (simp add: pending_endBatch distinct_fold_pend_group)
  have d: "batchMode (endBatch now s) = False \<and> batchQueue (endBatch now s) = []
     \<and> rafId (endBatch now s) = Some (nextFrame s)
     \<and> last (out (endBatch now s)) = RequestFrame (nextFrame s)"
    by (simp add: endBatch_def Let_def requestUpdate_fields)
  have l1: "latest f [c] = f c" for f :: "DOMChanges \<Rightarrow> 'x field" and c
    using latest_snoc [of f "[]" c] by (simp add: latest_Nil spread_field_def split: field.splits)
  have l2: "latest f [c1, c2] = spread_field (f c1) (f c2)" for f :: "DOMChanges \<Rightarrow> 'x field" and c1 c2
    using latest_snoc [of f "[c1]" c2] by (simp add: l1)
  have l3: "latest f [c1, c2, c3] = spread_field (spread_field (f c1) (f c2)) (f c3)"
    for f :: "DOMChanges \<Rightarrow> 'x field" and c1 c2 c3
    using latest_snoc [of f "[c1, c2]" c3] by (simp add: l2)
  have e: "filter (\<lambda>t. element t = n) (flush_order (run_batch_example n t1 t2 now s)) =
          [\<lparr>element = n,
            changes = emptyChanges\<lparr>text_f := Val (TStr ''a''), classes_f := Val [(''x'', True)]\<rparr>,
            priority = Normal, timestamp = now n\<rparr>]" if inv: "sched_inv s"
  proof -
    let ?q = "scheduleUpdate n classes_x Normal t2 (scheduleUpdate n text_a Normal t1 (startBatch s))"
    have q: "batchQueue ?q =
        [\<lparr>element = n, changes = text_a, priority = Normal, timestamp = t1\<rparr>,
         \<lparr>element = n, changes = classes_x, priority = Normal, timestamp = t2\<rparr>]"
      by (simp add: scheduleUpdate_def startBatch_def)
    have "sched_inv ?q"
      by (intro sched_inv_scheduleUpdate sched_inv_startBatch inv)
    then have i: "sched_inv (run_batch_example n t1 t2 now s)"
      unfolding run_batch_example_def by (rule sched_inv_endBatch)
    have m: "merged_changes n (batchQueue ?q) =
        emptyChanges\<lparr>text_f := Val (TStr ''a''), classes_f := Val [(''x'', True)]\<rparr>"
      unfolding q
      by (simp add: merged_changes_def l2 spread_field_def emptyChanges_def
            text_a_def classes_x_def)
    have "map_of (scheduledUpdates (run_batch_example n t1 t2 now s)) n =
        Some \<lparr>element = n, changes = merged_changes n (batchQueue ?q),
              priority = Normal, timestamp = now n\<rparr>"
      unfolding run_batch_example_def b by (simp add: q)
    then show ?thesis
      using filter_flush_order_single [OF i] by (simp add: m)
  qed
  have f: "filter (\<lambda>t. element t = n) (flush_order (run_overwrite_example n t1 t2 t3 now s)) =
          [\<lparr>element = n,
            changes = emptyChanges\<lparr>text_f := Val (TStr ''b''), html_f := Undef,
                                   classes_f := Val [(''x'', True)]\<rparr>,
            priority = Normal, timestamp = now n\<rparr>]" if inv: "sched_inv s"
  proof -
    let ?q = "scheduleUpdate n text_b Normal t3
        (scheduleUpdate n classes_x Normal t2 (scheduleUpdate n text_a Normal t1 (startBatch s)))"
    have q: "batchQueue ?q =
        [\<lparr>element = n, changes = text_a, priority = Normal, timestamp = t1\<rparr>,
         \<lparr>element = n, changes = classes_x, priority = Normal, timestamp = t2\<rparr>,
         \<lparr>element = n, changes = text_b, priority = Normal, timestamp = t3\<rparr>]"
      by (simp add: scheduleUpdate_def startBatch_def)
    have "sched_inv ?q"
      by (intro sched_inv_scheduleUpdate sched_inv_startBatch inv)
    then have i: "sched_inv (run_overwrite_example n t1 t2 t3 now s)"
      unfolding run_overwrite_example_def by (rule sched_inv_endBatch)
    have m: "merged_changes n (batchQueue ?q) =
        emptyChanges\<lparr>text_f := Val (TStr ''b''), html_f := Undef, classes_f := Val [(''x'', True)]\<rparr>"
      unfolding q
      by (simp add: merged_changes_def l3 spread_field_def emptyChanges_def
            text_a_def classes_x_def text_b_def)
    have "map_of (scheduledUpdates (run_overwrite_example n t1 t2 t3 now s)) n =
        Some \<lparr>element = n, changes = merged_changes n (batchQueue ?q),
              priority = Normal, timestamp = now n\<rparr>"
      unfolding run_overwrite_example_def b by (simp add: q)
    then show ?thesis
      using filter_flush_order_single [OF i] by (simp add: m)
  qed
  from a b [of s el] c d e f show ?thesis by blast
qed

lemmas sched_eval_defs =
  newReactiveUpdate_def startBatch_def scheduleUpdate_def endBatch_def requestUpdate_def
  emit_def group_tasks_def group_step_def pend_group_def spread_def spread_field_def
  emptyChanges_def text_a_def classes_x_def text_b_def run_batch_example_def
  run_overwrite_example_def flush_order_def
  array_sort_def compareTasks_def priorityOrder_def processUpdates_def apply_task_def
  applyUpdate_def update_effects_def defaultUpdateHandler_def string_of_textval_def
  env0_def Let_def

theorem batch_merges_per_node_witness:
  "batchMode (startBatch newReactiveUpdate)
   \<and> sched_inv (startBatch newReactiveUpdate)
   \<and> scheduleUpdate 7 text_a High 10 (startBatch newReactiveUpdate) =
       (startBatch newReactiveUpdate)
         \<lparr>batchQueue := [\<lparr>element = 7, changes = text_a, priority = High, timestamp = 10\<rparr>]\<rparr>
   \<and> filter (\<lambda>t. element t = 7)
        (flush_order (run_batch_example 7 1 2 (\<lambda>n. 3) (startBatch newReactiveUpdate))) =
       [\<lparr>element = 7,
         changes = emptyChanges\<lparr>text_f := Val (TStr ''a''), classes_f := Val [(''x'', True)]\<rparr>,
         priority = Normal, timestamp = 3\<rparr>]
   \<and> filter (\<lambda>t. element t = 7)
        (flush_order (run_overwrite_example 7 1 2 3 (\<lambda>n. 4) (startBatch newReactiveUpdate))) =
       [\<lparr>element = 7,
         changes = emptyChanges\<lparr>text_f := Val (TStr ''b''), html_f := Undef,
                                classes_f := Val [(''x'', True)]\<rparr>,
         priority = Normal, timestamp = 4\<rparr>]
   \<and> out (processUpdates env0 (run_batch_example 7 1 2 (\<lambda>n. 3) newReactiveUpdate)) =
       [RequestFrame 1, DocWrite (SetTextContent 7 ''a''), DocWrite (ClassListAdd 7 ''x''),
        DispatchEvent 7 ''alphabet:updated''
          (ChangesDetail (emptyChanges\<lparr>text_f := Val (TStr ''a''),
                                         classes_f := Val [(''x'', True)]\<rparr>))]
   \<and> out (processUpdates env0 (run_overwrite_example 7 1 2 3 (\<lambda>n. 4) newReactiveUpdate)) =
       [RequestFrame 1, DocWrite (SetTextContent 7 ''b''), DocWrite (ClassListAdd 7 ''x''),
        DispatchEvent 7 ''alphabet:updated''
          (ChangesDetail (emptyChanges\<lparr>text_f := Val (TStr ''b''), html_f := Undef,
                                         classes_f := Val [(''x'', True)]\<rparr>))]"
proof -
  have h1: "batchMode (startBatch newReactiveUpdate)"
    by (simp add: startBatch_def)
  have h2: "sched_inv (startBatch newReactiveUpdate)"
    by (simp add: sched_inv_startBatch sched_inv_new)
  have h3: "out (processUpdates env0 (run_batch_example 7 1 2 (\<lambda>n. 3) newReactiveUpdate)) =
       [RequestFrame 1, DocWrite (SetTextContent 7 ''a''), DocWrite (ClassListAdd 7 ''x''),
        DispatchEvent 7 ''alphabet:updated''
          (ChangesDetail (emptyChanges\<lparr>text_f := Val (TStr ''a''),
                                         classes_f := Val [(''x'', True)]\<rparr>))]"
    by (simp add: sched_eval_defs)
  have h4: "out (processUpdates env0 (run_overwrite_example 7 1 2 3 (\<lambda>n. 4) newReactiveUpdate)) =
       [RequestFrame 1, DocWrite (SetTextContent 7 ''b''), DocWrite (ClassListAdd 7 ''x''),
        DispatchEvent 7 ''alphabet:updated''
          (ChangesDetail (emptyChanges\<lparr>text_f := Val (TStr ''b''), html_f := Undef,
                                         classes_f := Val [(''x'', True)]\<rparr>))]"
    by (simp add: sched_eval_defs)
  show ?thesis
    using batch_merges_per_node [of "startBatch newReactiveUpdate" 7 text_a High 10 "\<lambda>n. 3" 7 1 2 3]
      batch_merges_per_node [of "startBatch newReactiveUpdate" 7 text_a High 10 "\<lambda>n. 4" 7 1 2 3]
      h1 h2 h3 h4
    by (simp add: startBatch_def)
qed












section \<open>Document Observation Layer: properties\<close>

subsection \<open>How each method changes the state\<close>

lemma handles_of_addObserver:
  "handles_of (addObserver el i s) x = (if x = el then handles_of s el @ [i] else handles_of s x)"
  by (simp add: handles_of_def addObserver_def Let_def update_conv')

lemma attach_fields:
  "mos (attach el c options config s) =
     mos s @ [\<lparr>mo_owner = el, mo_concern = c, mo_options = options, mo_config = config,
               mo_connected = True\<rparr>]"
  "handles_of (attach el c options config s) x =
     (if x = el then handles_of s el @ [length (mos s)] else handles_of s x)"
  "reactiveElements (attach el c options config s) = reactiveElements s"
  "updateQueue (attach el c options config s) = updateQueue s"
  "isUpdating (attach el c options config s) = isUpdating s"
  "dom_out (attach el c options config s) = dom_out s @ [ObserverObserve (length (mos s)) el]"
  by (simp_all add: attach_def Let_def handles_of_addObserver)
     (simp_all add: addObserver_def dom_emit_def handles_of_def Let_def)

lemma queueUpdate_fields:
  "mos (queueUpdate el s) = mos s"
  "observers (queueUpdate el s) = observers s"
  "reactiveElements (queueUpdate el s) = reactiveElements s"
  "set (updateQueue (queueUpdate el s)) = insert el (set (updateQueue s))"
  "dom_out (queueUpdate el s) = dom_out s @ (if isUpdating s then [] else [QueueMicrotask])"
  by (auto simp: queueUpdate_def Let_def dom_emit_def set_add_def)

lemma handles_of_cong:
  "observers s' = observers s \<Longrightarrow> handles_of s' = handles_of s"
  by (simp add: handles_of_def fun_eq_iff)

lemma fold_disconnect_fields:
  "observers (fold disconnect ids s) = observers s"
  "reactiveElements (fold disconnect ids s) = reactiveElements s"
  "updateQueue (fold disconnect ids s) = updateQueue s"
  "isUpdating (fold disconnect ids s) = isUpdating s"
  "dom_out (fold disconnect ids s) = dom_out s @ map ObserverDisconnect ids"
  "length (mos (fold disconnect ids s)) = length (mos s)"
  by (induction ids arbitrary: s) (simp_all add: disconnect_def dom_emit_def)

lemma fold_disconnect_nth:
  "i < length (mos s) \<Longrightarrow>
   mos (fold disconnect ids s) ! i =
     (if i \<in> set ids then (mos s ! i)\<lparr>mo_connected := False\<rparr> else mos s ! i)"
proof (induction ids arbitrary: s)
  case Nil
  then show ?case by simp
next
  case (Cons a ids)
  have l: "length (mos (disconnect a s)) = length (mos s)"
    by (simp add: disconnect_def dom_emit_def)
  have n: "mos (disconnect a s) ! i = (if i = a then (mos s ! i)\<lparr>mo_connected := False\<rparr> else mos s ! i)"
    using Cons.prems by (simp add: disconnect_def dom_emit_def)
  have "mos (fold disconnect (a # ids) s) ! i =
      (if i \<in> set ids then (mos (disconnect a s) ! i)\<lparr>mo_connected := False\<rparr>
       else mos (disconnect a s) ! i)"
    using Cons.IH [of "disconnect a s"] Cons.prems by (simp add: l)
  then show ?case
    unfolding n by auto
qed

lemma cleanupElement_fields:
  "handles_of (cleanupElement el s) x = (if x = el then [] else handles_of s x)"
  "reactiveElements (cleanupElement el s) = removeAll el (reactiveElements s)"
  "updateQueue (cleanupElement el s) = removeAll el (updateQueue s)"
  "isUpdating (cleanupElement el s) = isUpdating s"
  "length (mos (cleanupElement el s)) = length (mos s)"
  "dom_out (cleanupElement el s) = dom_out s @ map ObserverDisconnect (handles_of s el)"
  by (simp_all add: cleanupElement_def Let_def handles_of_def fold_disconnect_fields
        delete_conv' split: option.splits)

lemma cleanupElement_nth:
  "i < length (mos s) \<Longrightarrow>
   mos (cleanupElement el s) ! i =
     (if i \<in> set (handles_of s el) then (mos s ! i)\<lparr>mo_connected := False\<rparr> else mos s ! i)"
  by (simp add: cleanupElement_def Let_def handles_of_def fold_disconnect_nth split: option.splits)

lemma handles_of_updates [simp]:
  "handles_of (s\<lparr>reactiveElements := r\<rparr>) = handles_of s"
  "handles_of (s\<lparr>updateQueue := q\<rparr>) = handles_of s"
  "handles_of (s\<lparr>isUpdating := b\<rparr>) = handles_of s"
  "handles_of (s\<lparr>mos := m\<rparr>) = handles_of s"
  "handles_of (s\<lparr>dom_out := es\<rparr>) = handles_of s"
  by (simp_all add: handles_of_def fun_eq_iff)

lemma makeReactive_again: "el \<in> set (reactiveElements s) \<Longrightarrow> makeReactive el options s = s"
  by (simp add: makeReactive_def)

lemma makeReactive_fresh:
  assumes "el \<notin> set (reactiveElements s)"
  shows "reactiveElements (makeReactive el options s) = reactiveElements s @ [el]"
    and "updateQueue (makeReactive el options s) = updateQueue s"
    and "isUpdating (makeReactive el options s) = isUpdating s"
    and "handles_of (makeReactive el options s) x =
          (if x = el
           then handles_of s el @ [length (mos s), Suc (length (mos s)), Suc (Suc (length (mos s)))]
           else handles_of s x)"
    and "dom_out (makeReactive el options s) =
          dom_out s @ [ObserverObserve (length (mos s)) el, ObserverObserve (Suc (length (mos s))) el,
                       ObserverObserve (Suc (Suc (length (mos s)))) el, ConsoleLog el]"
    and "\<exists>ca cc ch. mos (makeReactive el options s) =
          mos s @ [\<lparr>mo_owner = el, mo_concern = AttributeWatch, mo_options = options,
                     mo_config = ca, mo_connected = True\<rparr>,
                   \<lparr>mo_owner = el, mo_concern = ContentWatch, mo_options = options,
                     mo_config = cc, mo_connected = True\<rparr>,
                   \<lparr>mo_owner = el, mo_concern = ChildWatch, mo_options = options,
                     mo_config = ch, mo_connected = True\<rparr>]"
  using assms
  by (simp_all add: makeReactive_def Let_def observeAttributes_def observeContent_def
        observeChildren_def attach_fields dom_emit_def set_add_def)


lemma handles_for_extend:
  assumes "\<forall>i \<in> set (handles_of s x). i < length (mos s)"
    and "mos s' = mos s @ hs" and "handles_of s' x = handles_of s x"
  shows "handles_for s' x c = handles_for s x c"
  unfolding handles_for_def using assms by (auto simp: nth_append intro!: filter_cong)

lemma dom_inv_makeReactive:
  assumes "dom_inv s"
  shows "dom_inv (makeReactive el options s)"
proof (cases "el \<in> set (reactiveElements s)")
  case True
  then show ?thesis using assms by (simp add: makeReactive_again)
next
  case False
  let ?s = "makeReactive el options s"
  let ?n = "length (mos s)"
  from assms have wf: "handles_wf s" and opc: "one_per_concern s"
    by (simp_all add: dom_inv_def)
  from opc False have empty: "handles_of s el = []"
    unfolding one_per_concern_def by (auto split: if_splits)
  from makeReactive_fresh(6) [OF False, of options] obtain ca cc ch where
    m: "mos ?s = mos s @ [\<lparr>mo_owner = el, mo_concern = AttributeWatch, mo_options = options,
                     mo_config = ca, mo_connected = True\<rparr>,
                   \<lparr>mo_owner = el, mo_concern = ContentWatch, mo_options = options,
                     mo_config = cc, mo_connected = True\<rparr>,
                   \<lparr>mo_owner = el, mo_concern = ChildWatch, mo_options = options,
                     mo_config = ch, mo_connected = True\<rparr>]"
    by blast
  have h: "handles_of ?s x = (if x = el then [?n, Suc ?n, Suc (Suc ?n)] else handles_of s x)" for x
    using makeReactive_fresh(4) [OF False, of options x] by (simp add: empty)
  have r: "reactiveElements ?s = reactiveElements s @ [el]"
    by (rule makeReactive_fresh(1) [OF False])
  have bound: "\<forall>i \<in> set (handles_of s x). i < ?n" for x
    using wf by (simp add: handles_wf_def)
  have old: "i < ?n \<Longrightarrow> mos ?s ! i = mos s ! i" for i
    by (simp add: m nth_append)
  have new: "mos ?s ! ?n = \<lparr>mo_owner = el, mo_concern = AttributeWatch, mo_options = options,
                     mo_config = ca, mo_connected = True\<rparr>"
      "mos ?s ! Suc ?n = \<lparr>mo_owner = el, mo_concern = ContentWatch, mo_options = options,
                     mo_config = cc, mo_connected = True\<rparr>"
      "mos ?s ! Suc (Suc ?n) = \<lparr>mo_owner = el, mo_concern = ChildWatch, mo_options = options,
                     mo_config = ch, mo_connected = True\<rparr>"
    by (simp_all add: m nth_append)
  have len: "length (mos ?s) = Suc (Suc (Suc ?n))" by (simp add: m)
  have wf1: "i \<in> set (handles_of ?s x) \<Longrightarrow>
      i < length (mos ?s) \<and> mo_owner (mos ?s ! i) = x \<and> mo_connected (mos ?s ! i)" for x i
  proof (cases "x = el")
    case True
    assume "i \<in> set (handles_of ?s x)"
    with True have "i = ?n \<or> i = Suc ?n \<or> i = Suc (Suc ?n)" by (simp add: h)
    then show ?thesis using True new by (auto simp: len)
  next
    case False
    assume "i \<in> set (handles_of ?s x)"
    with False have i: "i \<in> set (handles_of s x)" by (simp add: h)
    with wf have "i < ?n \<and> mo_owner (mos s ! i) = x \<and> mo_connected (mos s ! i)"
      by (simp add: handles_wf_def)
    then show ?thesis by (simp add: old len)
  qed
  have wf2: "i < length (mos ?s) \<Longrightarrow> mo_connected (mos ?s ! i) \<Longrightarrow>
      i \<in> set (handles_of ?s (mo_owner (mos ?s ! i)))" for i
  proof (cases "i < ?n")
    case True
    assume "mo_connected (mos ?s ! i)"
    with True wf have "i \<in> set (handles_of s (mo_owner (mos s ! i)))"
      by (simp add: handles_wf_def old)
    moreover from this wf have "mo_owner (mos s ! i) \<noteq> el"
      using empty by auto
    ultimately show ?thesis using True by (simp add: old h)
  next
    case False
    assume "i < length (mos ?s)"
    with False have "i = ?n \<or> i = Suc ?n \<or> i = Suc (Suc ?n)" by (auto simp: len)
    then show ?thesis using new by (auto simp: h)
  qed
  have hf_el: "handles_for ?s el AttributeWatch = [?n]" "handles_for ?s el ContentWatch = [Suc ?n]"
      "handles_for ?s el ChildWatch = [Suc (Suc ?n)]"
    by (simp_all add: handles_for_def h new)
  have hf_other: "x \<noteq> el \<Longrightarrow> handles_for ?s x c = handles_for s x c" for x c
    by (rule handles_for_extend [OF bound m]) (simp add: h)
  have "one_per_concern ?s"
    unfolding one_per_concern_def
  proof
    fix x
    show "if x \<in> set (reactiveElements ?s)
          then length (handles_for ?s x AttributeWatch) = 1
               \<and> length (handles_for ?s x ContentWatch) = 1
               \<and> length (handles_for ?s x ChildWatch) = 1
          else handles_of ?s x = []"
    proof (cases "x = el")
      case True
      then show ?thesis by (simp add: r hf_el)
    next
      case False
      with opc show ?thesis
        unfolding one_per_concern_def by (simp add: r hf_other h)
    qed
  qed
  moreover have "handles_wf ?s"
    unfolding handles_wf_def using wf1 wf2 by blast
  ultimately show ?thesis by (simp add: dom_inv_def)
qed

subsection \<open>Traces that only grow\<close>

lemma grows_by_refl: "grows_by P s s"
  by (simp add: grows_by_def)

lemma grows_by_trans: "grows_by P s s1 \<Longrightarrow> grows_by P s1 s2 \<Longrightarrow> grows_by P s s2"
  by (auto simp: grows_by_def)

lemma grows_by_emit: "list_all P es \<Longrightarrow> grows_by P s (dom_emit es s)"
  by (simp add: grows_by_def dom_emit_def)

lemma grows_by_out: "dom_out s' = dom_out s @ es \<Longrightarrow> list_all P es \<Longrightarrow> grows_by P s s'"
  by (auto simp: grows_by_def)

lemma grows_by_new_effects: "grows_by P s s' \<Longrightarrow> list_all P (new_effects s s')"
  by (auto simp: grows_by_def new_effects_def)

lemma fold_inv_grows:
  assumes "\<And>x s. x \<in> set xs \<Longrightarrow> J s \<Longrightarrow> J (f x s) \<and> grows_by P s (f x s)"
    and "J s"
  shows "J (fold f xs s) \<and> grows_by P s (fold f xs s)"
  using assms
proof (induction xs arbitrary: s)
  case Nil
  then show ?case by (simp add: grows_by_refl)
next
  case (Cons x xs)
  from Cons.prems have 1: "J (f x s)" and 2: "grows_by P s (f x s)" by simp_all
  have "J (fold f xs (f x s)) \<and> grows_by P (f x s) (fold f xs (f x s))"
    by (rule Cons.IH) (use Cons.prems 1 in auto)
  with 2 show ?case by (auto intro: grows_by_trans)
qed

subsection \<open>The layer's effects are its own\<close>

lemma layer_attach: "grows_by layer_effect s (attach el c options config s)"
  by (rule grows_by_out [OF attach_fields(6)]) simp

lemma layer_makeReactive: "grows_by layer_effect s (makeReactive el options s)"
proof (cases "el \<in> set (reactiveElements s)")
  case True
  then show ?thesis by (simp add: makeReactive_again grows_by_refl)
next
  case False
  show ?thesis by (rule grows_by_out [OF makeReactive_fresh(5) [OF False]]) simp
qed

lemma layer_makeReactiveSubtree: "grows_by layer_effect s (makeReactiveSubtree qsa root options s)"
proof -
  have "True \<and> grows_by layer_effect (makeReactive root options s)
      (fold (\<lambda>e. makeReactive e options) (qsa root) (makeReactive root options s))"
    by (rule fold_inv_grows [where J = "\<lambda>s. True"]) (simp_all add: layer_makeReactive)
  then show ?thesis
    unfolding makeReactiveSubtree_def Let_def observeNewElements_def
    by (blast intro: grows_by_trans layer_makeReactive layer_attach)
qed

lemma layer_queueUpdate: "grows_by layer_effect s (queueUpdate el s)"
  by (rule grows_by_out [OF queueUpdate_fields(5)]) simp

lemma layer_cleanupElement: "grows_by layer_effect s (cleanupElement el s)"
  by (rule grows_by_out [OF cleanupElement_fields(6)]) (simp add: list_all_iff)

lemma layer_handlers:
  "grows_by layer_effect s (handleAttributeChange el a v s)"
  "grows_by layer_effect s (handleContentChange el t s)"
  "grows_by layer_effect s (handleElementAdded el nd s)"
  "grows_by layer_effect s (handleElementRemoved el nd s)"
  unfolding handleAttributeChange_def handleContentChange_def handleElementAdded_def
    handleElementRemoved_def
  by (rule grows_by_trans [OF _ grows_by_emit],
      (blast intro: grows_by_trans layer_queueUpdate layer_makeReactive layer_cleanupElement),
      simp)+

lemma fold_grows:
  "(\<And>x s. grows_by P s (f x s)) \<Longrightarrow> grows_by P s (fold f xs s)"
  using fold_inv_grows [where J = "\<lambda>s. True" and f = f and P = P and xs = xs and s = s]
  by simp

lemma layer_record_callbacks:
  "grows_by layer_effect s (attributes_callback el m s)"
  "grows_by layer_effect s (content_callback el m s)"
  "grows_by layer_effect s (children_callback el m s)"
  "grows_by layer_effect s (newElements_callback qsa options m s)"
proof -
  show "grows_by layer_effect s (attributes_callback el m s)"
    by (cases m) (simp_all add: layer_handlers grows_by_refl)
  show "grows_by layer_effect s (content_callback el m s)"
    by (cases m) (simp_all add: layer_handlers grows_by_refl)
  have a: "grows_by layer_effect s (added_node el nd s)" for nd s
    by (simp add: added_node_def layer_handlers grows_by_refl)
  have r: "grows_by layer_effect s (removed_node el nd s)" for nd s
    by (simp add: removed_node_def layer_handlers grows_by_refl)
  have "grows_by layer_effect s (fold (removed_node el) rs (fold (added_node el) as s))" for as rs
    by (rule grows_by_trans [OF fold_grows fold_grows]) (rule a r)+
  then show "grows_by layer_effect s (children_callback el m s)"
    by (cases m) (simp_all add: grows_by_refl)
  have n: "grows_by layer_effect s (new_node qsa options nd s)" for nd s
    by (simp add: new_node_def layer_makeReactiveSubtree grows_by_refl)
  show "grows_by layer_effect s (newElements_callback qsa options m s)"
    by (cases m) (auto simp: grows_by_refl intro: fold_grows n)
qed

lemma layer_callback: "grows_by layer_effect s (callback qsa mo ms s)"
  unfolding callback_def
  by (cases "mo_concern mo") (simp_all add: fold_grows layer_record_callbacks)

lemma layer_deliver: "grows_by layer_effect s (deliver qsa i ms s)"
  by (simp add: deliver_def layer_callback grows_by_refl)

lemma fold_performUpdate_fields:
  "dom_out (fold performUpdate q s) =
     dom_out s @ map (\<lambda>n. DispatchEvent n ''alphabet:update'' NoDetail) q"
  "mos (fold performUpdate q s) = mos s"
  "observers (fold performUpdate q s) = observers s"
  "reactiveElements (fold performUpdate q s) = reactiveElements s"
  "updateQueue (fold performUpdate q s) = updateQueue s"
  "isUpdating (fold performUpdate q s) = isUpdating s"
  by (induction q arbitrary: s) (simp_all add: performUpdate_def dom_emit_def)

lemma processUpdateQueue_fields:
  "dom_out (processUpdateQueue s) =
     dom_out s @ map (\<lambda>n. DispatchEvent n ''alphabet:update'' NoDetail) (updateQueue s)"
  "mos (processUpdateQueue s) = mos s"
  "observers (processUpdateQueue s) = observers s"
  "reactiveElements (processUpdateQueue s) = reactiveElements s"
  "updateQueue (processUpdateQueue s) = []"
  "isUpdating (processUpdateQueue s) = False"
  by (simp_all add: processUpdateQueue_def Let_def fold_performUpdate_fields)

lemma layer_microtask: "grows_by layer_effect s (microtask s)"
  unfolding microtask_def
  by (auto simp: grows_by_refl list_all_iff intro!: grows_by_out [OF processUpdateQueue_fields(1)])

lemma destroy_fold_fields:
  "observers (fold (\<lambda>entry s. fold disconnect (snd entry) s) es s) = observers s"
  "reactiveElements (fold (\<lambda>entry s. fold disconnect (snd entry) s) es s) = reactiveElements s"
  "updateQueue (fold (\<lambda>entry s. fold disconnect (snd entry) s) es s) = updateQueue s"
  "isUpdating (fold (\<lambda>entry s. fold disconnect (snd entry) s) es s) = isUpdating s"
  "length (mos (fold (\<lambda>entry s. fold disconnect (snd entry) s) es s)) = length (mos s)"
  "dom_out (fold (\<lambda>entry s. fold disconnect (snd entry) s) es s) =
     dom_out s @ map ObserverDisconnect (concat (map snd es))"
  by (induction es arbitrary: s) (simp_all add: fold_disconnect_fields)

lemma destroy_fold_nth:
  "i < length (mos s) \<Longrightarrow>
   mos (fold (\<lambda>entry s. fold disconnect (snd entry) s) es s) ! i =
     (if i \<in> set (concat (map snd es)) then (mos s ! i)\<lparr>mo_connected := False\<rparr> else mos s ! i)"
proof (induction es arbitrary: s)
  case Nil
  then show ?case by simp
next
  case (Cons e es)
  let ?s1 = "fold disconnect (snd e) s"
  have l: "i < length (mos ?s1)" using Cons.prems by (simp add: fold_disconnect_fields)
  have "mos (fold (\<lambda>entry s. fold disconnect (snd entry) s) (e # es) s) ! i =
      (if i \<in> set (concat (map snd es)) then (mos ?s1 ! i)\<lparr>mo_connected := False\<rparr>
       else mos ?s1 ! i)"
    using Cons.IH [OF l] by simp
  then show ?case
    unfolding fold_disconnect_nth [OF Cons.prems] by auto
qed

lemma layer_destroy: "grows_by layer_effect s (destroy s)"
  unfolding destroy_def Let_def
  by (rule grows_by_out [where es = "map ObserverDisconnect (concat (map snd (observers s)))"])
     (simp_all add: destroy_fold_fields list_all_iff)

lemma layer_exec: "grows_by layer_effect s (dom_exec qsa step s)"
  by (cases step)
     (simp_all add: layer_makeReactive layer_makeReactiveSubtree layer_deliver layer_microtask
        layer_destroy)

lemma layer_run: "grows_by layer_effect s (dom_run qsa steps s)"
  unfolding dom_run_def by (rule fold_grows) (rule layer_exec)

subsection \<open>A forgotten node stays forgotten and silent\<close>

lemma forgotten_attach:
  assumes "forgotten n s" and "el \<noteq> n"
  shows "forgotten n (attach el c options config s) \<and>
         grows_by (not_on n) s (attach el c options config s)"
proof -
  have "grows_by (not_on n) s (attach el c options config s)"
    by (rule grows_by_out [OF attach_fields(6)]) (simp add: not_on_def)
  moreover have "forgotten n (attach el c options config s)"
    using assms unfolding forgotten_def
    by (auto simp: attach_fields nth_append less_Suc_eq)
  ultimately show ?thesis by simp
qed

lemma forgotten_cong:
  assumes "forgotten n s" and "mos s' = mos s" and "observers s' = observers s"
    and "set (reactiveElements s') \<subseteq> set (reactiveElements s)"
    and "set (updateQueue s') \<subseteq> set (updateQueue s)"
  shows "forgotten n s'"
  using assms unfolding forgotten_def by (auto simp: handles_of_def)

lemma forgotten_emit: "forgotten n s \<Longrightarrow> forgotten n (dom_emit es s)"
  by (erule forgotten_cong) (simp_all add: dom_emit_def)

lemma forgotten_makeReactive:
  assumes "forgotten n s" and "el \<noteq> n"
  shows "forgotten n (makeReactive el options s) \<and>
         grows_by (not_on n) s (makeReactive el options s)"
proof (cases "el \<in> set (reactiveElements s)")
  case True
  then show ?thesis using assms by (simp add: makeReactive_again grows_by_refl)
next
  case False
  let ?s1 = "s\<lparr>reactiveElements := set_add el (reactiveElements s)\<rparr>"
  have f1: "forgotten n ?s1"
    using assms unfolding forgotten_def by (auto simp: set_add_def)
  have g1: "grows_by (not_on n) s ?s1" by (simp add: grows_by_def)
  note a = forgotten_attach [OF _ assms(2)]
  from a [OF f1] have 2: "forgotten n (observeAttributes el options ?s1)"
      "grows_by (not_on n) ?s1 (observeAttributes el options ?s1)"
    by (simp_all add: observeAttributes_def)
  from a [OF 2(1)] have 3: "forgotten n (observeContent el options (observeAttributes el options ?s1))"
      "grows_by (not_on n) (observeAttributes el options ?s1)
         (observeContent el options (observeAttributes el options ?s1))"
    by (simp_all add: observeContent_def)
  from a [OF 3(1)] have 4:
      "forgotten n (observeChildren el options (observeContent el options (observeAttributes el options ?s1)))"
      "grows_by (not_on n) (observeContent el options (observeAttributes el options ?s1))
         (observeChildren el options (observeContent el options (observeAttributes el options ?s1)))"
    by (simp_all add: observeChildren_def)
  have 5: "grows_by (not_on n) s
      (observeChildren el options (observeContent el options (observeAttributes el options ?s1)))"
    using g1 2(2) 3(2) 4(2) by (blast intro: grows_by_trans)
  have 6: "grows_by (not_on n) s (dom_emit [ConsoleLog el]
      (observeChildren el options (observeContent el options (observeAttributes el options ?s1))))"
    by (rule grows_by_trans [OF 5 grows_by_emit]) (simp add: not_on_def)
  show ?thesis
    using False 4(1) 6 by (simp add: makeReactive_def Let_def forgotten_emit)
qed

lemma forgotten_makeReactiveSubtree:
  assumes "forgotten n s" and "root \<noteq> n" and "n \<notin> set (qsa root)"
  shows "forgotten n (makeReactiveSubtree qsa root options s) \<and>
         grows_by (not_on n) s (makeReactiveSubtree qsa root options s)"
proof -
  let ?s1 = "makeReactive root options s"
  let ?s2 = "fold (\<lambda>e. makeReactive e options) (qsa root) ?s1"
  from forgotten_makeReactive [OF assms(1,2)] have 1: "forgotten n ?s1" "grows_by (not_on n) s ?s1"
    by simp_all
  have 2: "forgotten n ?s2 \<and> grows_by (not_on n) ?s1 ?s2"
  proof (rule fold_inv_grows)
    fix x s'
    assume "x \<in> set (qsa root)" and "forgotten n s'"
    moreover from this assms(3) have "x \<noteq> n" by blast
    ultimately show "forgotten n (makeReactive x options s') \<and>
        grows_by (not_on n) s' (makeReactive x options s')"
      by (simp add: forgotten_makeReactive)
  qed (rule 1)
  from forgotten_attach [OF conjunct1 [OF 2] assms(2)]
  have 3: "forgotten n (observeNewElements root options ?s2)"
      "grows_by (not_on n) ?s2 (observeNewElements root options ?s2)"
    by (simp_all add: observeNewElements_def)
  show ?thesis
    unfolding makeReactiveSubtree_def Let_def
    using 1 2 3 by (blast intro: grows_by_trans)
qed

lemma forgotten_queueUpdate:
  assumes "forgotten n s" and "el \<noteq> n"
  shows "forgotten n (queueUpdate el s) \<and> grows_by (not_on n) s (queueUpdate el s)"
proof -
  have "grows_by (not_on n) s (queueUpdate el s)"
    by (rule grows_by_out [OF queueUpdate_fields(5)]) (simp add: not_on_def)
  moreover have "forgotten n (queueUpdate el s)"
    using assms unfolding forgotten_def
    by (simp add: queueUpdate_fields handles_of_cong [OF queueUpdate_fields(2)])
  ultimately show ?thesis by simp
qed

lemma forgotten_cleanupElement:
  assumes "forgotten n s"
  shows "forgotten n (cleanupElement el s) \<and> grows_by (not_on n) s (cleanupElement el s)"
proof -
  have "grows_by (not_on n) s (cleanupElement el s)"
    by (rule grows_by_out [OF cleanupElement_fields(6)]) (simp add: not_on_def list_all_iff)
  moreover have "forgotten n (cleanupElement el s)"
    using assms unfolding forgotten_def
    by (auto simp: cleanupElement_fields cleanupElement_nth)
  ultimately show ?thesis by simp
qed

lemma forgotten_then:
  assumes "forgotten n s \<and> grows_by (not_on n) s0 s"
    and "\<And>s. forgotten n s \<Longrightarrow> forgotten n (f s) \<and> grows_by (not_on n) s (f s)"
  shows "forgotten n (f s) \<and> grows_by (not_on n) s0 (f s)"
  using assms by (blast intro: grows_by_trans)

lemma forgotten_dispatch:
  assumes "forgotten n s \<and> grows_by (not_on n) s0 s" and "el \<noteq> n"
  shows "forgotten n (dom_emit [DispatchEvent el ev d] s) \<and>
         grows_by (not_on n) s0 (dom_emit [DispatchEvent el ev d] s)"
proof -
  have "grows_by (not_on n) s (dom_emit [DispatchEvent el ev d] s)"
    by (rule grows_by_emit) (simp add: not_on_def assms(2))
  with assms(1) show ?thesis by (blast intro: grows_by_trans forgotten_emit)
qed

lemma forgotten_handlers:
  assumes "forgotten n s" and "el \<noteq> n"
  shows "forgotten n (handleAttributeChange el a v s) \<and>
           grows_by (not_on n) s (handleAttributeChange el a v s)"
    and "forgotten n (handleContentChange el t s) \<and>
           grows_by (not_on n) s (handleContentChange el t s)"
    and "nd \<noteq> n \<Longrightarrow> forgotten n (handleElementAdded el nd s) \<and>
           grows_by (not_on n) s (handleElementAdded el nd s)"
    and "forgotten n (handleElementRemoved el nd s) \<and>
           grows_by (not_on n) s (handleElementRemoved el nd s)"
proof -
  note q = forgotten_queueUpdate [OF _ assms(2)]
  show "forgotten n (handleAttributeChange el a v s) \<and>
           grows_by (not_on n) s (handleAttributeChange el a v s)"
    unfolding handleAttributeChange_def
    by (rule forgotten_dispatch [OF q [OF assms(1)] assms(2)])
  show "forgotten n (handleContentChange el t s) \<and>
           grows_by (not_on n) s (handleContentChange el t s)"
    unfolding handleContentChange_def
    by (rule forgotten_dispatch [OF q [OF assms(1)] assms(2)])
  show "forgotten n (handleElementAdded el nd s) \<and>
           grows_by (not_on n) s (handleElementAdded el nd s)" if "nd \<noteq> n"
    unfolding handleElementAdded_def
    by (rule forgotten_dispatch [OF forgotten_then [OF forgotten_makeReactive [OF assms(1) that] q]
          assms(2)])
  show "forgotten n (handleElementRemoved el nd s) \<and>
           grows_by (not_on n) s (handleElementRemoved el nd s)"
    unfolding handleElementRemoved_def
    by (rule forgotten_dispatch [OF forgotten_then [OF forgotten_cleanupElement [OF assms(1)] q]
          assms(2)])
qed

lemma forgotten_record_callbacks:
  assumes "forgotten n s" and "el \<noteq> n" and "\<not> reports_added qsa n m"
  shows "forgotten n (attributes_callback el m s) \<and>
           grows_by (not_on n) s (attributes_callback el m s)"
    and "forgotten n (content_callback el m s) \<and>
           grows_by (not_on n) s (content_callback el m s)"
    and "forgotten n (children_callback el m s) \<and>
           grows_by (not_on n) s (children_callback el m s)"
    and "forgotten n (newElements_callback qsa options m s) \<and>
           grows_by (not_on n) s (newElements_callback qsa options m s)"
proof -
  show "forgotten n (attributes_callback el m s) \<and>
           grows_by (not_on n) s (attributes_callback el m s)"
    using assms(1,2) by (cases m) (simp_all add: forgotten_handlers grows_by_refl)
  show "forgotten n (content_callback el m s) \<and>
           grows_by (not_on n) s (content_callback el m s)"
    using assms(1,2) by (cases m) (simp_all add: forgotten_handlers grows_by_refl)
  show "forgotten n (children_callback el m s) \<and>
           grows_by (not_on n) s (children_callback el m s)"
  proof (cases m)
    case (ChildListRecord as rs)
    with assms(3) have av: "\<forall>nd \<in> set as. fst nd \<noteq> n"
      by (auto simp: reports_added_def list_ex_iff)
    have 1: "forgotten n (fold (added_node el) as s) \<and>
        grows_by (not_on n) s (fold (added_node el) as s)"
      by (rule fold_inv_grows)
         (use av assms(1,2) in \<open>auto simp: added_node_def forgotten_handlers grows_by_refl\<close>)
    have 2: "forgotten n (fold (removed_node el) rs s') \<and>
        grows_by (not_on n) s' (fold (removed_node el) rs s')" if "forgotten n s'" for s'
      by (rule fold_inv_grows)
         (use that assms(2) in \<open>auto simp: removed_node_def forgotten_handlers grows_by_refl\<close>)
    from 1 2 show ?thesis
      unfolding ChildListRecord by (auto intro: grows_by_trans)
  qed (simp_all add: assms(1) grows_by_refl)
  show "forgotten n (newElements_callback qsa options m s) \<and>
           grows_by (not_on n) s (newElements_callback qsa options m s)"
  proof (cases m)
    case (ChildListRecord as rs)
    with assms(3) have av: "\<forall>nd \<in> set as. fst nd \<noteq> n \<and> n \<notin> set (qsa (fst nd))"
      by (auto simp: reports_added_def list_ex_iff)
    have "forgotten n (fold (new_node qsa options) as s) \<and>
        grows_by (not_on n) s (fold (new_node qsa options) as s)"
      by (rule fold_inv_grows)
         (use av assms(1) in \<open>auto simp: new_node_def forgotten_makeReactiveSubtree grows_by_refl\<close>)
    then show ?thesis by (simp add: ChildListRecord)
  qed (simp_all add: assms(1) grows_by_refl)
qed

lemma forgotten_callback:
  assumes "forgotten n s" and "mo_owner mo \<noteq> n" and "\<not> list_ex (reports_added qsa n) ms"
  shows "forgotten n (callback qsa mo ms s) \<and> grows_by (not_on n) s (callback qsa mo ms s)"
proof -
  from assms(3) have r: "\<And>m. m \<in> set ms \<Longrightarrow> \<not> reports_added qsa n m"
    by (auto simp: list_ex_iff)
  note rc = forgotten_record_callbacks [where qsa = qsa, OF _ assms(2) r]
  show ?thesis
    unfolding callback_def
    by (cases "mo_concern mo"; simp; rule fold_inv_grows)
       (use assms(1) rc in simp_all)
qed

lemma forgotten_deliver:
  assumes "forgotten n s" and "\<not> list_ex (reports_added qsa n) ms"
  shows "forgotten n (deliver qsa i ms s) \<and> grows_by (not_on n) s (deliver qsa i ms s)"
proof (cases "i < length (mos s) \<and> mo_connected (mos s ! i)")
  case True
  with assms(1) have "mo_owner (mos s ! i) \<noteq> n" by (simp add: forgotten_def)
  from forgotten_callback [OF assms(1) this assms(2)] True show ?thesis
    by (simp add: deliver_def)
next
  case False
  then show ?thesis using assms(1) by (auto simp: deliver_def grows_by_refl)
qed

lemma forgotten_microtask:
  assumes "forgotten n s"
  shows "forgotten n (microtask s) \<and> grows_by (not_on n) s (microtask s)"
proof -
  have "grows_by (not_on n) s (processUpdateQueue s)"
    by (rule grows_by_out [OF processUpdateQueue_fields(1)])
       (use assms in \<open>auto simp: list_all_iff not_on_def forgotten_def\<close>)
  moreover have "forgotten n (processUpdateQueue s)"
    by (rule forgotten_cong [OF assms]) (simp_all add: processUpdateQueue_fields)
  ultimately show ?thesis using assms by (simp add: microtask_def grows_by_refl)
qed

lemma forgotten_destroy:
  assumes "forgotten n s"
  shows "forgotten n (destroy s) \<and> grows_by (not_on n) s (destroy s)"
proof -
  have "grows_by (not_on n) s (destroy s)"
    unfolding destroy_def Let_def
    by (rule grows_by_out [where es = "map ObserverDisconnect (concat (map snd (observers s)))"])
       (simp_all add: destroy_fold_fields list_all_iff not_on_def)
  moreover have "forgotten n (destroy s)"
    using assms unfolding forgotten_def destroy_def Let_def
    by (auto simp: destroy_fold_fields destroy_fold_nth handles_of_def)
  ultimately show ?thesis by simp
qed

lemma forgotten_exec:
  assumes "forgotten n s" and "\<not> reaches qsa n step"
  shows "forgotten n (dom_exec qsa step s) \<and> grows_by (not_on n) s (dom_exec qsa step s)"
  using assms
  by (cases step)
     (simp_all add: forgotten_makeReactive forgotten_makeReactiveSubtree forgotten_deliver
        forgotten_microtask forgotten_destroy)

lemma forgotten_run:
  assumes "forgotten n s" and "\<not> list_ex (reaches qsa n) steps"
  shows "forgotten n (dom_run qsa steps s) \<and> grows_by (not_on n) s (dom_run qsa steps s)"
  unfolding dom_run_def
  by (rule fold_inv_grows) (use assms in \<open>auto simp: list_ex_iff forgotten_exec\<close>)

subsection \<open>The bookkeeping invariant\<close>

lemma fold_inv: "(\<And>x s. J s \<Longrightarrow> J (f x s)) \<Longrightarrow> J s \<Longrightarrow> J (fold f xs s)"
  by (induction xs arbitrary: s) simp_all

lemma dom_inv_new: "dom_inv newReactiveDOM"
  by (simp add: dom_inv_def handles_wf_def one_per_concern_def handles_of_def newReactiveDOM_def)

lemma dom_inv_cong:
  assumes "dom_inv s" and "mos s' = mos s" and "observers s' = observers s"
    and "reactiveElements s' = reactiveElements s"
  shows "dom_inv s'"
proof -
  have 1: "handles_of s' = handles_of s" by (rule handles_of_cong [OF assms(3)])
  have 2: "handles_for s' = handles_for s"
    by (simp add: fun_eq_iff handles_for_def 1 assms(2))
  from assms(1) show ?thesis
    unfolding dom_inv_def handles_wf_def one_per_concern_def 1 2 assms(2) assms(4) .
qed

lemma dom_inv_emit: "dom_inv s \<Longrightarrow> dom_inv (dom_emit es s)"
  by (erule dom_inv_cong) (simp_all add: dom_emit_def)

lemma dom_inv_queueUpdate: "dom_inv s \<Longrightarrow> dom_inv (queueUpdate el s)"
  by (erule dom_inv_cong) (simp_all add: queueUpdate_fields)

lemma reactive_makeReactive:
  "set (reactiveElements (makeReactive el options s)) = insert el (set (reactiveElements s))"
  by (cases "el \<in> set (reactiveElements s)")
     (auto simp: makeReactive_again makeReactive_fresh(1))

lemma dom_inv_observeNewElements:
  assumes "dom_inv s" and "root \<in> set (reactiveElements s)"
  shows "dom_inv (observeNewElements root options s)"
proof -
  let ?s = "observeNewElements root options s"
  let ?n = "length (mos s)"
  from assms have wf: "handles_wf s" and opc: "one_per_concern s"
    by (simp_all add: dom_inv_def)
  obtain h where m: "mos ?s = mos s @ [h]" and ho: "mo_owner h = root"
    and hc: "mo_concern h = NewElementWatch" and hn: "mo_connected h"
    by (simp add: observeNewElements_def attach_fields)
  have h: "handles_of ?s x = (if x = root then handles_of s root @ [?n] else handles_of s x)" for x
    by (simp add: observeNewElements_def attach_fields)
  have r: "reactiveElements ?s = reactiveElements s"
    by (simp add: observeNewElements_def attach_fields)
  have bound: "\<forall>i \<in> set (handles_of s x). i < ?n" for x
    using wf by (simp add: handles_wf_def)
  have old: "i < ?n \<Longrightarrow> mos ?s ! i = mos s ! i" for i
    by (simp add: m nth_append)
  have new: "mos ?s ! ?n = h" by (simp add: m)
  have len: "length (mos ?s) = Suc ?n" by (simp add: m)
  have wf1: "i < length (mos ?s) \<and> mo_owner (mos ?s ! i) = x \<and> mo_connected (mos ?s ! i)"
    if "i \<in> set (handles_of ?s x)" for x i
  proof -
    from that consider "i \<in> set (handles_of s x)" | "x = root" "i = ?n"
      by (auto simp: h split: if_splits)
    then show ?thesis
    proof cases
      case 1
      with wf have "i < ?n \<and> mo_owner (mos s ! i) = x \<and> mo_connected (mos s ! i)"
        by (simp add: handles_wf_def)
      then show ?thesis by (simp add: old len)
    next
      case 2
      then show ?thesis by (simp add: new ho hn len)
    qed
  qed
  have wf2: "i \<in> set (handles_of ?s (mo_owner (mos ?s ! i)))"
    if i: "i < length (mos ?s)" and c: "mo_connected (mos ?s ! i)" for i
  proof -
    show ?thesis
    proof (cases "i < ?n")
      case True
      with c wf have "i \<in> set (handles_of s (mo_owner (mos s ! i)))"
        by (simp add: handles_wf_def old)
      then show ?thesis using True by (auto simp: old h)
    next
      case False
      with i have "i = ?n" by (simp add: len)
      then show ?thesis by (simp add: new ho h)
    qed
  qed
  have "handles_wf ?s"
    unfolding handles_wf_def using wf1 wf2 by blast
  moreover have "one_per_concern ?s"
    unfolding one_per_concern_def
  proof
    fix x
    have "handles_for ?s x c = handles_for s x c" if "c \<noteq> NewElementWatch" for c
    proof (cases "x = root")
      case True
      have "filter (\<lambda>i. mo_concern (mos ?s ! i) = c) (handles_of s root)
          = filter (\<lambda>i. mo_concern (mos s ! i) = c) (handles_of s root)"
        using bound [of root] by (auto simp: old intro!: filter_cong)
      then show ?thesis
        using that by (simp add: handles_for_def h True new hc)
    next
      case False
      show ?thesis by (rule handles_for_extend [OF bound m]) (simp add: h False)
    qed
    moreover have "x \<notin> set (reactiveElements s) \<Longrightarrow> x \<noteq> root"
      using assms(2) by blast
    ultimately show "if x \<in> set (reactiveElements ?s)
          then length (handles_for ?s x AttributeWatch) = 1
               \<and> length (handles_for ?s x ContentWatch) = 1
               \<and> length (handles_for ?s x ChildWatch) = 1
          else handles_of ?s x = []"
      using opc unfolding one_per_concern_def by (simp add: r h)
  qed
  ultimately show ?thesis by (simp add: dom_inv_def)
qed

lemma dom_inv_makeReactiveSubtree:
  assumes "dom_inv s"
  shows "dom_inv (makeReactiveSubtree qsa root options s)"
proof -
  let ?s1 = "makeReactive root options s"
  let ?s2 = "fold (\<lambda>e. makeReactive e options) (qsa root) ?s1"
  have "dom_inv ?s2 \<and> root \<in> set (reactiveElements ?s2)"
    by (rule fold_inv [where J = "\<lambda>s. dom_inv s \<and> root \<in> set (reactiveElements s)"])
       (simp_all add: dom_inv_makeReactive reactive_makeReactive assms)
  then show ?thesis
    by (simp add: makeReactiveSubtree_def Let_def dom_inv_observeNewElements)
qed

lemma dom_inv_cleanupElement:
  assumes "dom_inv s"
  shows "dom_inv (cleanupElement el s)"
proof -
  let ?s = "cleanupElement el s"
  from assms have wf: "handles_wf s" and opc: "one_per_concern s"
    by (simp_all add: dom_inv_def)
  have own: "i \<in> set (handles_of s x) \<Longrightarrow>
      i < length (mos s) \<and> mo_owner (mos s ! i) = x \<and> mo_connected (mos s ! i)" for i x
    using wf by (simp add: handles_wf_def)
  have nth: "i < length (mos s) \<Longrightarrow> mo_owner (mos ?s ! i) = mo_owner (mos s ! i)
      \<and> mo_concern (mos ?s ! i) = mo_concern (mos s ! i)
      \<and> (mo_connected (mos ?s ! i) \<longleftrightarrow> mo_connected (mos s ! i) \<and> i \<notin> set (handles_of s el))" for i
    by (simp add: cleanupElement_nth)
  have wf1: "i < length (mos ?s) \<and> mo_owner (mos ?s ! i) = x \<and> mo_connected (mos ?s ! i)"
    if "i \<in> set (handles_of ?s x)" for x i
  proof -
    from that have x: "x \<noteq> el" and i: "i \<in> set (handles_of s x)"
      by (auto simp: cleanupElement_fields split: if_splits)
    from own [OF i] x have "i \<notin> set (handles_of s el)"
      using own [of i el] by auto
    with own [OF i] show ?thesis
      by (simp add: nth cleanupElement_fields)
  qed
  have wf2: "i \<in> set (handles_of ?s (mo_owner (mos ?s ! i)))"
    if i: "i < length (mos ?s)" and c: "mo_connected (mos ?s ! i)" for i
  proof -
    from i have l: "i < length (mos s)" by (simp add: cleanupElement_fields)
    from c nth [OF l] have c0: "mo_connected (mos s ! i)" and ni: "i \<notin> set (handles_of s el)"
      by simp_all
    from wf l c0 have m: "i \<in> set (handles_of s (mo_owner (mos s ! i)))"
      by (simp add: handles_wf_def)
    with ni have "mo_owner (mos s ! i) \<noteq> el" by auto
    with m show ?thesis
      by (simp add: nth [OF l] cleanupElement_fields)
  qed
  have "handles_wf ?s"
    unfolding handles_wf_def using wf1 wf2 by blast
  moreover have "one_per_concern ?s"
    unfolding one_per_concern_def
  proof
    fix x
    have "handles_for ?s x c = handles_for s x c" if "x \<noteq> el" for c
      unfolding handles_for_def using that own [of _ x]
      by (auto simp: cleanupElement_fields nth intro!: filter_cong)
    then show "if x \<in> set (reactiveElements ?s)
          then length (handles_for ?s x AttributeWatch) = 1
               \<and> length (handles_for ?s x ContentWatch) = 1
               \<and> length (handles_for ?s x ChildWatch) = 1
          else handles_of ?s x = []"
      using opc unfolding one_per_concern_def
      by (cases "x = el") (simp_all add: cleanupElement_fields)
  qed
  ultimately show ?thesis by (simp add: dom_inv_def)
qed

lemma dom_inv_handlers:
  assumes "dom_inv s"
  shows "dom_inv (handleAttributeChange el a v s)"
    and "dom_inv (handleContentChange el t s)"
    and "dom_inv (handleElementAdded el nd s)"
    and "dom_inv (handleElementRemoved el nd s)"
  using assms
  by (simp_all add: handleAttributeChange_def handleContentChange_def handleElementAdded_def
        handleElementRemoved_def dom_inv_emit dom_inv_queueUpdate dom_inv_makeReactive
        dom_inv_cleanupElement)

lemma dom_inv_callback:
  assumes "dom_inv s"
  shows "dom_inv (callback qsa mo ms s)"
proof -
  have a: "dom_inv s \<Longrightarrow> dom_inv (attributes_callback el m s)" for el m s
    by (cases m) (simp_all add: dom_inv_handlers)
  have c: "dom_inv s \<Longrightarrow> dom_inv (content_callback el m s)" for el m s
    by (cases m) (simp_all add: dom_inv_handlers)
  have ad: "dom_inv s \<Longrightarrow> dom_inv (added_node el nd s)" for el nd s
    by (simp add: added_node_def dom_inv_handlers)
  have rm: "dom_inv s \<Longrightarrow> dom_inv (removed_node el nd s)" for el nd s
    by (simp add: removed_node_def dom_inv_handlers)
  have ch: "dom_inv s \<Longrightarrow> dom_inv (children_callback el m s)" for el m s
    by (cases m) (simp_all add: fold_inv [where J = dom_inv] ad rm)
  have nn: "dom_inv s \<Longrightarrow> dom_inv (new_node qsa options nd s)" for options nd s
    by (simp add: new_node_def dom_inv_makeReactiveSubtree)
  have ne: "dom_inv s \<Longrightarrow> dom_inv (newElements_callback qsa options m s)" for options m s
    by (cases m) (simp_all add: fold_inv [where J = dom_inv] nn)
  show ?thesis
    unfolding callback_def
    by (cases "mo_concern mo") (simp_all add: fold_inv [where J = dom_inv] a c ch ne assms)
qed

lemma dom_inv_destroy:
  assumes "dom_inv s"
  shows "dom_inv (destroy s)"
proof -
  let ?s1 = "fold (\<lambda>entry s. fold disconnect (snd entry) s) (observers s) s"
  from assms have wf: "handles_wf s" by (simp add: dom_inv_def)
  have "\<not> mo_connected (mos ?s1 ! i)" if i: "i < length (mos s)" for i
  proof (cases "mo_connected (mos s ! i)")
    case True
    with wf i have "i \<in> set (handles_of s (mo_owner (mos s ! i)))"
      by (simp add: handles_wf_def)
    then obtain ids where "map_of (observers s) (mo_owner (mos s ! i)) = Some ids" "i \<in> set ids"
      by (cases "map_of (observers s) (mo_owner (mos s ! i))") (auto simp: handles_of_def)
    then have "i \<in> set (concat (map snd (observers s)))"
      by (force dest: map_of_SomeD)
    then show ?thesis by (simp add: destroy_fold_nth [OF i])
  next
    case False
    then show ?thesis by (simp add: destroy_fold_nth [OF i])
  qed
  then show ?thesis
    by (simp add: dom_inv_def handles_wf_def one_per_concern_def destroy_def Let_def
          handles_of_def destroy_fold_fields)
qed

lemma dom_inv_exec: "dom_inv s \<Longrightarrow> dom_inv (dom_exec qsa step s)"
proof (cases step)
  case Microtask
  assume "dom_inv s"
  then have "dom_inv (processUpdateQueue s)"
    by (rule dom_inv_cong) (simp_all add: processUpdateQueue_fields)
  with \<open>dom_inv s\<close> show ?thesis by (simp add: Microtask microtask_def)
qed (simp_all add: dom_inv_makeReactive dom_inv_makeReactiveSubtree dom_inv_callback
       dom_inv_destroy deliver_def)

lemma dom_inv_run: "dom_inv s \<Longrightarrow> dom_inv (dom_run qsa steps s)"
  unfolding dom_run_def by (rule fold_inv [where J = dom_inv]) (rule dom_inv_exec)

lemma forgotten_after_cleanup:
  assumes "handles_wf s"
  shows "forgotten n (cleanupElement n s)"
proof -
  have "mo_owner (mos (cleanupElement n s) ! i) \<noteq> n"
    if i: "i < length (mos s)" and c: "mo_connected (mos (cleanupElement n s) ! i)" for i
  proof -
    from c have c0: "mo_connected (mos s ! i)" and ni: "i \<notin> set (handles_of s n)"
      by (simp_all add: cleanupElement_nth [OF i] split: if_splits)
    from assms i c0 have "i \<in> set (handles_of s (mo_owner (mos s ! i)))"
      by (simp add: handles_wf_def)
    with ni show ?thesis by (auto simp: cleanupElement_nth [OF i])
  qed
  then show ?thesis
    by (simp add: forgotten_def cleanupElement_fields)
qed

lemma live_handles_listed:
  assumes "handles_wf s"
  shows "live_handles s el c = set (handles_for s el c)"
  using assms unfolding live_handles_def handles_for_def handles_wf_def by auto

lemma enqueue_and_dispatch_eq:
  "dom_emit [DispatchEvent el ev d] (queueUpdate el s) = enqueue_and_dispatch el ev d s"
  by (simp add: enqueue_and_dispatch_def queueUpdate_def dom_emit_def Let_def)

subsection \<open>The claims about the observation layer\<close>

text \<open>
  Claim C10. \<open>makeReactive\<close> on a node that is already reactive returns the state as it is:
  no handle is attached, nothing is logged. Whatever sequence of \<open>makeReactive\<close>,
  \<open>makeReactiveSubtree\<close>, observer callbacks, microtasks and \<open>destroy\<close> a fresh layer goes
  through, every reactive node holds exactly one handle for each of the concerns attributes,
  content and child list, and these are the connected handles the platform has for that node
  and concern. (The fourth handle, which \<open>makeReactiveSubtree\<close> attaches to its root to
  watch for new elements, is not one of the three concerns: each call on the same root adds
  another, as the sample layer shows.)
\<close>

theorem makeReactive_idempotent:
  "(el \<in> set (reactiveElements s) \<longrightarrow> makeReactive el options s = s)
   \<and> makeReactive el options' (makeReactive el options s) = makeReactive el options s
   \<and> (\<forall>x \<in> set (reactiveElements (dom_run qsa steps newReactiveDOM)).
         \<forall>c \<in> {AttributeWatch, ContentWatch, ChildWatch}.
           length (handles_for (dom_run qsa steps newReactiveDOM) x c) = 1
           \<and> live_handles (dom_run qsa steps newReactiveDOM) x c
               = set (handles_for (dom_run qsa steps newReactiveDOM) x c))
   \<and> (dom_inv s \<longrightarrow> dom_inv (dom_run qsa steps s))"
proof -
  let ?s = "dom_run qsa steps newReactiveDOM"
  have i: "dom_inv ?s" by (rule dom_inv_run [OF dom_inv_new])
  then have "\<forall>x \<in> set (reactiveElements ?s).
         \<forall>c \<in> {AttributeWatch, ContentWatch, ChildWatch}.
           length (handles_for ?s x c) = 1 \<and> live_handles ?s x c = set (handles_for ?s x c)"
    unfolding dom_inv_def one_per_concern_def
    by (auto simp: live_handles_listed)
  moreover have "makeReactive el options' (makeReactive el options s) = makeReactive el options s"
    by (rule makeReactive_again) (simp add: reactive_makeReactive)
  ultimately show ?thesis
    by (simp add: makeReactive_again dom_inv_run)
qed

text \<open>
  Claim C7, as amended. \<open>cleanupElement(n)\<close>, run in any state a fresh layer can reach,
  disconnects every handle the layer holds for \<open>n\<close> and leaves \<open>n\<close> forgotten: not tracked,
  without handles, not queued, and with no connected handle of the platform created for it.
  From a state where \<open>n\<close> is forgotten, no event is dispatched on \<open>n\<close> by any run of the
  layer, as long as no step makes \<open>n\<close> reactive again (\<open>makeReactive\<close> or
  \<open>makeReactiveSubtree\<close> reaching it, or a child-list record that reports it, or a node above
  it, as added). Events are attributed to the node they are dispatched on; an event dispatched
  on another node whose handle observes a subtree containing \<open>n\<close> is not excluded.
\<close>

theorem cleanup_silences_node:
  "forgotten n (cleanupElement n (dom_run qsa before newReactiveDOM))
   \<and> dom_out (cleanupElement n (dom_run qsa before newReactiveDOM)) =
       dom_out (dom_run qsa before newReactiveDOM)
         @ map ObserverDisconnect (handles_of (dom_run qsa before newReactiveDOM) n)
   \<and> (\<not> list_ex (reaches qsa n) after \<longrightarrow>
        list_all (not_on n)
          (new_effects (cleanupElement n (dom_run qsa before newReactiveDOM))
             (dom_run qsa after (cleanupElement n (dom_run qsa before newReactiveDOM))))
        \<and> forgotten n (dom_run qsa after (cleanupElement n (dom_run qsa before newReactiveDOM))))
   \<and> (forgotten n s \<and> \<not> list_ex (reaches qsa n) after \<longrightarrow>
        list_all (not_on n) (new_effects s (dom_run qsa after s))
        \<and> forgotten n (dom_run qsa after s))"
proof -
  let ?s0 = "dom_run qsa before newReactiveDOM"
  have "dom_inv ?s0" by (rule dom_inv_run [OF dom_inv_new])
  then have f: "forgotten n (cleanupElement n ?s0)"
    by (simp add: dom_inv_def forgotten_after_cleanup)
  have g: "list_all (not_on n) (new_effects s (dom_run qsa after s)) \<and> forgotten n (dom_run qsa after s)"
    if "forgotten n s" and "\<not> list_ex (reaches qsa n) after" for s
    using forgotten_run [OF that] by (simp add: grows_by_new_effects)
  from f g [OF f] g show ?thesis
    by (simp add: cleanupElement_fields)
qed

text \<open>
  Claim C3, as amended. An attribute or character-data record makes the layer enqueue the
  observed node and dispatch one semantic event on it, and nothing else. A child-list record
  does the same for the observed node after the layer has made the added element reactive
  (attaching its three handles) or has cleaned up the removed one (disconnecting its
  handles). The drain dispatches one \<open>alphabet:update\<close> per queued node, empties the queue
  and changes nothing else. No run of the layer writes to the document or produces an effect
  of the Update Scheduler: all it does to the outside is dispatch its five events, queue its
  microtask, create and disconnect observation handles, and log.
\<close>

theorem observation_layer_effects:
  "handleAttributeChange el a v s =
     enqueue_and_dispatch el ''alphabet:attribute-change'' (AttrDetail a v v) s
   \<and> handleContentChange el t s =
       enqueue_and_dispatch el ''alphabet:content-change'' (ContentDetail t) s
   \<and> handleElementAdded el nd s =
       enqueue_and_dispatch el ''alphabet:child-added'' (ElementDetail nd)
         (makeReactive nd noOptions s)
   \<and> handleElementRemoved el nd s =
       enqueue_and_dispatch el ''alphabet:child-removed'' (ElementDetail nd)
         (cleanupElement nd s)
   \<and> processUpdateQueue s =
       s\<lparr>updateQueue := [], isUpdating := False,
         dom_out := dom_out s
           @ map (\<lambda>n. DispatchEvent n ''alphabet:update'' NoDetail) (updateQueue s)\<rparr>
   \<and> list_all layer_effect (new_effects s (dom_run qsa steps s))
   \<and> list_all (\<lambda>e. \<not> is_docwrite e \<and> \<not> is_scheduler_effect e)
         (new_effects s (dom_run qsa steps s))"
proof -
  have 1: "list_all layer_effect (new_effects s (dom_run qsa steps s))"
    by (rule grows_by_new_effects [OF layer_run])
  have "layer_effect e \<Longrightarrow> \<not> is_docwrite e \<and> \<not> is_scheduler_effect e" for e
    by (cases e) simp_all
  with 1 have 2: "list_all (\<lambda>e. \<not> is_docwrite e \<and> \<not> is_scheduler_effect e)
         (new_effects s (dom_run qsa steps s))"
    by (auto simp: list_all_iff)
  have 3: "processUpdateQueue s =
       s\<lparr>updateQueue := [], isUpdating := False,
         dom_out := dom_out s
           @ map (\<lambda>n. DispatchEvent n ''alphabet:update'' NoDetail) (updateQueue s)\<rparr>"
  proof -
    have "fold performUpdate q s' =
        s'\<lparr>dom_out := dom_out s' @ map (\<lambda>n. DispatchEvent n ''alphabet:update'' NoDetail) q\<rparr>"
      for q s'
      by (induction q arbitrary: s') (simp_all add: performUpdate_def dom_emit_def)
    then show ?thesis by (simp add: processUpdateQueue_def Let_def)
  qed
  from 1 2 3 show ?thesis
    by (simp add: handleAttributeChange_def handleContentChange_def handleElementAdded_def
          handleElementRemoved_def enqueue_and_dispatch_eq)
qed

theorem makeReactive_idempotent_witness:
  "1 \<in> set (reactiveElements thrice_reached)
   \<and> makeReactive 1 noOptions thrice_reached = thrice_reached
   \<and> ChildWatch \<in> {AttributeWatch, ContentWatch, ChildWatch}
   \<and> length (handles_for thrice_reached 1 ChildWatch) = 1
   \<and> live_handles thrice_reached 1 ChildWatch = {2}
   \<and> handles_of thrice_reached 1 = [0, 1, 2, 3]
   \<and> dom_inv newReactiveDOM \<and> dom_inv thrice_reached"
proof -
  note th = makeReactive_idempotent [of 1 thrice_reached noOptions noOptions qsa0
      "[MakeReactive 1 noOptions, MakeReactiveSubtree 1 noOptions, MakeReactive 1 noOptions]"]
  note th0 = makeReactive_idempotent [of 1 newReactiveDOM noOptions noOptions qsa0
      "[MakeReactive 1 noOptions, MakeReactiveSubtree 1 noOptions, MakeReactive 1 noOptions]"]
  have h1: "1 \<in> set (reactiveElements thrice_reached)" by code_simp
  have h2: "ChildWatch \<in> {AttributeWatch, ContentWatch, ChildWatch}" by simp
  have h3: "dom_inv newReactiveDOM" by (rule dom_inv_new)
  have h4: "handles_for thrice_reached 1 ChildWatch = [2]" by code_simp
  have h5: "handles_of thrice_reached 1 = [0, 1, 2, 3]" by code_simp
  from th h1 have c1: "makeReactive 1 noOptions thrice_reached = thrice_reached" by blast
  from th h1 h2 have c2: "length (handles_for thrice_reached 1 ChildWatch) = 1
      \<and> live_handles thrice_reached 1 ChildWatch = set (handles_for thrice_reached 1 ChildWatch)"
    unfolding thrice_reached_def by blast
  from th0 h3 have c3: "dom_inv thrice_reached"
    unfolding thrice_reached_def by blast
  from h1 h2 h3 h4 h5 c1 c2 c3 show ?thesis by simp
qed

theorem cleanup_silences_node_witness:
  "\<not> list_ex (reaches qsa0 2)
       [Deliver 0 [AttributesRecord ''id'' None], Deliver 3 [AttributesRecord ''id'' None], Microtask]
   \<and> forgotten 2 cleaned
   \<and> dom_out cleaned = dom_out two_reactive @ [ObserverDisconnect 3, ObserverDisconnect 4, ObserverDisconnect 5]
   \<and> list_all (not_on 2)
        (new_effects cleaned
           (dom_run qsa0 [Deliver 0 [AttributesRecord ''id'' None],
                          Deliver 3 [AttributesRecord ''id'' None], Microtask] cleaned))
   \<and> new_effects cleaned
        (dom_run qsa0 [Deliver 0 [AttributesRecord ''id'' None],
                       Deliver 3 [AttributesRecord ''id'' None], Microtask] cleaned) =
       [QueueMicrotask,
        DispatchEvent 1 ''alphabet:attribute-change'' (AttrDetail ''id'' None None),
        DispatchEvent 1 ''alphabet:update'' NoDetail]"
proof -
  note th = cleanup_silences_node [of 2 qsa0 "[MakeReactive 1 noOptions, MakeReactive 2 noOptions]"
      "[Deliver 0 [AttributesRecord ''id'' None], Deliver 3 [AttributesRecord ''id'' None], Microtask]"
      cleaned]
  have h1: "\<not> list_ex (reaches qsa0 2)
       [Deliver 0 [AttributesRecord ''id'' None], Deliver 3 [AttributesRecord ''id'' None], Microtask]"
    by (simp add: reports_added_def)
  have h2: "handles_of two_reactive 2 = [3, 4, 5]" by code_simp
  have h3: "new_effects cleaned
        (dom_run qsa0 [Deliver 0 [AttributesRecord ''id'' None],
                       Deliver 3 [AttributesRecord ''id'' None], Microtask] cleaned) =
       [QueueMicrotask,
        DispatchEvent 1 ''alphabet:attribute-change'' (AttrDetail ''id'' None None),
        DispatchEvent 1 ''alphabet:update'' NoDetail]"
    by code_simp
  from th h1 show ?thesis
    unfolding cleaned_def [symmetric] two_reactive_def [symmetric] h2
    by (simp add: h3 cleaned_def [symmetric])
qed

text \<open>
  The claim as stated fails: after \<open>cleanupElement(2)\<close>, the child-list handle of node 1
  is told that node 2 was added and makes it reactive again; the next attribute record for
  node 2 dispatches \<open>alphabet:attribute-change\<close> on it.
\<close>

theorem cleanup_then_readded_counterexample:
  "new_effects cleaned
     (dom_run qsa0 [Deliver 2 [ChildListRecord [(2, True)] []],
                    Deliver 6 [AttributesRecord ''class'' (Some ''x'')]] cleaned) =
     [ObserverObserve 6 2, ObserverObserve 7 2, ObserverObserve 8 2, ConsoleLog 2,
      QueueMicrotask,
      DispatchEvent 1 ''alphabet:child-added'' (ElementDetail 2),
      DispatchEvent 2 ''alphabet:attribute-change'' (AttrDetail ''class'' (Some ''x'') (Some ''x''))]
   \<and> \<not> list_all (not_on 2)
         (new_effects cleaned
            (dom_run qsa0 [Deliver 2 [ChildListRecord [(2, True)] []],
                           Deliver 6 [AttributesRecord ''class'' (Some ''x'')]] cleaned))"
  by code_simp

theorem observation_layer_effects_witness:
  "handleElementAdded 1 2 one_reactive =
     enqueue_and_dispatch 1 ''alphabet:child-added'' (ElementDetail 2)
       (makeReactive 2 noOptions one_reactive)
   \<and> new_effects one_reactive
        (dom_run qsa0 [Deliver 0 [AttributesRecord ''id'' (Some ''a'')],
                       Deliver 1 [CharacterDataRecord None], Microtask] one_reactive) =
       [QueueMicrotask,
        DispatchEvent 1 ''alphabet:attribute-change'' (AttrDetail ''id'' (Some ''a'') (Some ''a'')),
        DispatchEvent 1 ''alphabet:content-change'' (ContentDetail []),
        DispatchEvent 1 ''alphabet:update'' NoDetail]
   \<and> list_all (\<lambda>e. \<not> is_docwrite e \<and> \<not> is_scheduler_effect e)
        (new_effects one_reactive
           (dom_run qsa0 [Deliver 0 [AttributesRecord ''id'' (Some ''a'')],
                          Deliver 1 [CharacterDataRecord None], Microtask] one_reactive))"
proof -
  note th = observation_layer_effects [of 1 "''id''" "Some ''a''" one_reactive "[]" 2 qsa0
      "[Deliver 0 [AttributesRecord ''id'' (Some ''a'')], Deliver 1 [CharacterDataRecord None], Microtask]"]
  have h: "new_effects one_reactive
        (dom_run qsa0 [Deliver 0 [AttributesRecord ''id'' (Some ''a'')],
                       Deliver 1 [CharacterDataRecord None], Microtask] one_reactive) =
       [QueueMicrotask,
        DispatchEvent 1 ''alphabet:attribute-change'' (AttrDetail ''id'' (Some ''a'') (Some ''a'')),
        DispatchEvent 1 ''alphabet:content-change'' (ContentDetail []),
        DispatchEvent 1 ''alphabet:update'' NoDetail]"
    by code_simp
  from th h show ?thesis by blast
qed

text \<open>
  The claim as stated fails: the reaction to a child-list record that reports node 2 as
  added is more than enqueueing node 1 and dispatching on it, since node 2 becomes tracked
  and receives three observation handles.
\<close>

theorem child_added_reaction_counterexample:
  "deliver qsa0 2 [ChildListRecord [(2, True)] []] one_reactive
     \<noteq> enqueue_and_dispatch 1 ''alphabet:child-added'' (ElementDetail 2) one_reactive
   \<and> reactiveElements (deliver qsa0 2 [ChildListRecord [(2, True)] []] one_reactive) = [1, 2]
   \<and> handles_of (deliver qsa0 2 [ChildListRecord [(2, True)] []] one_reactive) 2 = [3, 4, 5]
   \<and> new_effects one_reactive (deliver qsa0 2 [ChildListRecord [(2, True)] []] one_reactive) =
       [ObserverObserve 3 2, ObserverObserve 4 2, ObserverObserve 5 2, ConsoleLog 2,
        QueueMicrotask, DispatchEvent 1 ''alphabet:child-added'' (ElementDetail 2)]"
proof -
  have 1: "reactiveElements (deliver qsa0 2 [ChildListRecord [(2, True)] []] one_reactive) = [1, 2]"
    by code_simp
  have 2: "reactiveElements (enqueue_and_dispatch 1 ''alphabet:child-added'' (ElementDetail 2) one_reactive) = [1]"
    by code_simp
  have 3: "handles_of (deliver qsa0 2 [ChildListRecord [(2, True)] []] one_reactive) 2 = [3, 4, 5]"
    by code_simp
  have 4: "new_effects one_reactive (deliver qsa0 2 [ChildListRecord [(2, True)] []] one_reactive) =
       [ObserverObserve 3 2, ObserverObserve 4 2, ObserverObserve 5 2, ConsoleLog 2,
        QueueMicrotask, DispatchEvent 1 ''alphabet:child-added'' (ElementDetail 2)]"
    by code_simp
  from 1 2 have "deliver qsa0 2 [ChildListRecord [(2, True)] []] one_reactive
     \<noteq> enqueue_and_dispatch 1 ''alphabet:child-added'' (ElementDetail 2) one_reactive"
    by auto
  with 1 3 4 show ?thesis by blast
qed

section \<open>Change Registry: properties\<close>

subsection \<open>Objects kept apart\<close>

lemma obj_avoids_simps [simp]:
  "obj_avoids P (Obj ps) = list_all (\<lambda>p. val_avoids P (snd p)) ps"
  "obj_avoids P (Arr n ps) = list_all (\<lambda>p. val_avoids P (snd p)) ps"
  by (simp_all add: obj_avoids_def props_of_def)

lemma createProxy_avoids [simp]: "val_avoids P (createProxy v path) = val_avoids P v"
  by (simp add: createProxy_def)












lemma notify_fields [simp]:
  "store (notify path v oldValue s) = store s"
  "proxy (notify path v oldValue s) = proxy s"
  "target (notify path v oldValue s) = target s"
  "observers_rp (notify path v oldValue s) = observers_rp s"
  "throwing (notify path v oldValue s) = throwing s"
  by (simp_all add: notify_def split: option.splits)
































subsection \<open>Decimal numerals\<close>









subsection \<open>Filling a clone\<close>



lemma with_props_simps [simp]:
  "props_of (with_props ob qs) = qs"
  "is_array (with_props ob qs) = is_array ob"
  "own (with_props ob qs) ''length'' = (if is_array ob then own ob ''length'' else map_of qs ''length'')"
  "with_props (with_props ob qs) qs' = with_props ob qs'"
  by (cases ob; simp add: with_props_def props_of_def is_array_def own_def)+





subsection \<open>The constructor clones\<close>


















subsection \<open>Notifications of a write\<close>

text \<open>
  Claim C8 fails on the code. A write to an element of an array is handed by the \<open>set\<close>
  trap to a proxy made by \<open>createArrayProxy\<close>, which has no \<open>set\<close> trap and notifies nobody:
  on the wrapper of \<open>{items: [1, 2]}\<close> with subscribers of \<open>items\<close>, \<open>items.0\<close> and \<open>items[0]\<close>,
  the write \<open>proxy.items[0] = 9\<close> stores 9 and invokes no callback. And a proxy that a read
  has yielded is stored as it is when it is written: on the wrapper of \<open>{a: {x: 0}}\<close> with a
  subscriber of \<open>a.x\<close>, after \<open>proxy.a = proxy.a\<close> (which invokes nobody) the one write
  \<open>proxy.a.x = 1\<close> goes through two \<open>set\<close> traps and invokes the subscriber twice; without
  the first write it invokes it once.
\<close>

theorem writes_not_notified_once:
  "newReactiveProxy 3 (Ref 0) [] h_items = Inr items_wrapper
   \<and> subscribers items_element_watched ''items'' = [7]
   \<and> subscribers items_element_watched ''items.0'' = [8]
   \<and> subscribers items_element_watched ''items[0]'' = [9]
   \<and> navigate [''items''] (getProxy items_element_watched) items_element_watched =
       Inr (Proxy (Ref 3) ''items'')
   \<and> rp_step (OpWrite [''items''] ''0'' (JNum 9)) items_element_watched =
       (None, items_element_watched
                \<lparr>store := h_items @ [Obj [(''items'', Ref 3)], Arr 2 [(''0'', JNum 9), (''1'', JNum 2)]]\<rparr>)
   \<and> notified (rp_exec (OpWrite [''items''] ''0'' (JNum 9)) items_element_watched) = []
   \<and> newReactiveProxy 3 (Ref 0) [] h_nested = Inr nested_wrapper
   \<and> subscribers nested_watched ''a.x'' = [7]
   \<and> navigate [''a''] (getProxy nested_watched) nested_watched = Inr (Proxy (Ref 3) ''a'')
   \<and> stays_modelled [OpWrite [] ''a'' (Proxy (Ref 3) ''a''), OpWrite [''a''] ''x'' (JNum 1)] nested_watched
   \<and> notified (rp_exec (OpWrite [] ''a'' (Proxy (Ref 3) ''a'')) nested_watched) = []
   \<and> notified (rp_run [OpWrite [] ''a'' (Proxy (Ref 3) ''a''), OpWrite [''a''] ''x'' (JNum 1)] nested_watched) =
       [Notified ''a.x'' 7 (JNum 1) (JNum 0), Notified ''a.x'' 7 (JNum 1) (JNum 0)]
   \<and> notified (rp_run [OpWrite [''a''] ''x'' (JNum 1)] nested_watched) =
       [Notified ''a.x'' 7 (JNum 1) (JNum 0)]"
  by code_simp


subsection \<open>\<open>push\<close> on an array of the wrapped object\<close>

text \<open>
  Claim C1 fails on the code. On the wrapper of \<open>{items: [1, 2]}\<close> with a subscriber of
  \<open>items\<close> and one of \<open>items[2]\<close>, \<open>getProxy().items\<close> is a proxy made by \<open>createProxy\<close>, whose
  \<open>get\<close> trap returns the native \<open>push\<close>; \<open>items.push(3)\<close> returns 3 and makes the array
  \<open>[1, 2, 3]\<close>, and no callback is invoked (neither for \<open>unshift\<close>). The function that
  \<open>createArrayProxy\<close> would return for \<open>push\<close> does what the claim says: it invokes the
  subscriber of \<open>items\<close> with the array and a copy \<open>[1, 2]\<close> of the old one, and the subscriber
  of \<open>items[2]\<close> with \<open>(3, undefined)\<close>; but no read reaches it.
\<close>

theorem push_through_proxy_silent:
  "newReactiveProxy 3 (Ref 0) [] h_items = Inr items_wrapper
   \<and> subscribers items_watched ''items'' = [7]
   \<and> subscribers items_watched ''items[2]'' = [8]
   \<and> navigate [''items''] (getProxy items_watched) items_watched = Inr (Proxy (Ref 3) ''items'')
   \<and> fst (call_method Push (Proxy (Ref 3) ''items'') [JNum 3] items_watched) = Inr (JNum 3)
   \<and> heap_get (store (snd (call_method Push (Proxy (Ref 3) ''items'') [JNum 3] items_watched))) 3 =
       Arr 3 [(''0'', JNum 1), (''1'', JNum 2), (''2'', JNum 3)]
   \<and> notified (snd (call_method Push (Proxy (Ref 3) ''items'') [JNum 3] items_watched)) = []
   \<and> stays_modelled [OpCall [''items''] Push [JNum 3]] items_watched
   \<and> stays_modelled [OpCall [''items''] Unshift [JNum 3]] items_watched
   \<and> notified (rp_run [OpCall [''items''] Push [JNum 3]] items_watched) = []
   \<and> notified (rp_run [OpCall [''items''] Unshift [JNum 3]] items_watched) = []
   \<and> heap_get (store (rp_run [OpCall [''items''] Unshift [JNum 3]] items_watched)) 3 =
       Arr 3 [(''0'', JNum 3), (''1'', JNum 1), (''2'', JNum 2)]
   \<and> notified (arrayProxy_call 3 ''items'' Push [JNum 3] items_watched) =
       [Notified ''items'' 7 (Ref 3) (Ref 4), Notified ''items[2]'' 8 (JNum 3) Undefined]
   \<and> heap_get (store (arrayProxy_call 3 ''items'' Push [JNum 3] items_watched)) 4 =
       Arr 2 [(''0'', JNum 1), (''1'', JNum 2)]"
  by code_simp


subsection \<open>\<open>set\<close> and \<open>get\<close> by path\<close>

text \<open>
  Claim C2 fails on the code. \<open>set\<close> looks for the bracket notation in every key but the
  last, \<open>get\<close> in every key: on the wrapper of \<open>{}\<close>, \<open>set("a[0]", 5)\<close> stores 5 under the
  property named \<open>a[0]\<close>, and \<open>get("a[0]")\<close> reads element 0 of a property \<open>a\<close> that is not
  there, returning \<open>undefined\<close>. And \<open>set\<close> throws where a parent is not an object: on the
  wrapper of \<open>{a: 5}\<close>, \<open>set("a[0].b", 1)\<close> assigns to element 0 of the number 5, a
  \<open>TypeError\<close> in strict code. A path with the brackets inside, \<open>a.b[2].c\<close>, is written and
  read back.
\<close>

theorem set_get_bracket_last_key:
  "newReactiveProxy 3 (Ref 0) [] h_empty = Inr empty_wrapper
   \<and> fst (set_path ''a[0]'' (JNum 5) empty_wrapper) = None
   \<and> heap_get (store (snd (set_path ''a[0]'' (JNum 5) empty_wrapper))) 1 = Obj [(''a[0]'', JNum 5)]
   \<and> get_path ''a[0]'' (snd (set_path ''a[0]'' (JNum 5) empty_wrapper)) = Inr Undefined
   \<and> get_path ''a[0]'' (snd (set_path ''a[0]'' (JNum 5) empty_wrapper)) \<noteq> Inr (JNum 5)
   \<and> newReactiveProxy 3 (Ref 0) [] h_a5 = Inr a5_wrapper
   \<and> fst (set_path ''a[0].b'' (JNum 1) a5_wrapper) = Some TypeError
   \<and> fst (set_path ''a.b[2].c'' (JNum 7) empty_wrapper) = None
   \<and> get_path ''a.b[2].c'' (snd (set_path ''a.b[2].c'' (JNum 7) empty_wrapper)) = Inr (JNum 7)"
  by code_simp

end
